theory Spec2Isabelle
  imports Main "HOL-Library.Word" "HOL-Library.AList"
begin

unbundle bit_operations_syntax

section \<open>Strings of the platform\<close>

text \<open>
  A character is a code unit below 256 of a JavaScript string; texts with larger code
  units are outside the model. The playlist tags, URL prefixes and file extensions the
  manager tests for are ASCII.
\<close>

definition startsWith :: "string \<Rightarrow> string \<Rightarrow> bool" where
  "startsWith s p = (take (length p) s = p)"

definition endsWith :: "string \<Rightarrow> string \<Rightarrow> bool" where
  "endsWith s p = (length p \<le> length s \<and> drop (length s - length p) s = p)"

text \<open>\<open>s.includes(p)\<close>: \<open>p\<close> occurs in \<open>s\<close> at some position.\<close>

fun includes_str :: "string \<Rightarrow> string \<Rightarrow> bool" where
  "includes_str [] p = (p = [])"
| "includes_str (c # s) p = (startsWith (c # s) p \<or> includes_str s p)"

text \<open>An upper-case ASCII letter becomes lower-case by setting bit 5 (adding 32); the
  upper-case letters from 192 on cannot make an address contain \<open>.m3u8\<close> and are left
  as they are.\<close>

definition toLowerChar :: "char \<Rightarrow> char" where
  "toLowerChar c =
     (if (65::nat) \<le> of_char c \<and> of_char c \<le> (90::nat)
      then (case c of Char b0 b1 b2 b3 b4 b5 b6 b7 \<Rightarrow> Char b0 b1 b2 b3 b4 True b6 b7)
      else c)"

definition toLowerCase :: "string \<Rightarrow> string" where
  "toLowerCase s = map toLowerChar s"

text \<open>White space and line terminators removed by \<open>trim()\<close>, as far as they are below
  256: tab, line feed, vertical tab, form feed, carriage return, space and the
  no-break space.\<close>

definition isWhiteSpace :: "char \<Rightarrow> bool" where
  "isWhiteSpace c = (of_char c \<in> {9::nat, 10, 11, 12, 13, 32, 160})"

definition trim :: "string \<Rightarrow> string" where
  "trim s = rev (dropWhile isWhiteSpace (rev (dropWhile isWhiteSpace s)))"

text \<open>\<open>s.split(sep)\<close> for a one-character separator; the result is never empty.\<close>

fun split_str :: "char \<Rightarrow> string \<Rightarrow> string list" where
  "split_str sep [] = [[]]"
| "split_str sep (c # s) =
     (if c = sep then [] # split_str sep s
      else (case split_str sep s of
              [] \<Rightarrow> [[c]]
            | piece # pieces \<Rightarrow> (c # piece) # pieces))"

text \<open>\<open>s.lastIndexOf(c)\<close>: the scan keeps the index of the last occurrence seen, \<open>-1\<close>
  when there is none.\<close>

fun lastIndexOf_from :: "string \<Rightarrow> char \<Rightarrow> int \<Rightarrow> int \<Rightarrow> int" where
  "lastIndexOf_from [] c i found = found"
| "lastIndexOf_from (x # s) c i found =
     lastIndexOf_from s c (i + 1) (if x = c then i else found)"

definition lastIndexOf :: "string \<Rightarrow> char \<Rightarrow> int" where
  "lastIndexOf s c = lastIndexOf_from s c 0 (-1)"

text \<open>\<open>s.substring(0, n)\<close>.\<close>

definition substring0 :: "string \<Rightarrow> int \<Rightarrow> string" where
  "substring0 s n = take (nat n) s"

section \<open>Exceptions and the platform\<close>

text \<open>
  Every \<open>throw\<close> of the manager and every exception of a platform call it makes. The task
  record stores the exception in place of its message text.
\<close>

datatype exn =
    HttpError nat        \<comment> \<open>\<open>new Error(`HTTP ${response.statusCode}`)\<close>\<close>
  | RequestError         \<comment> \<open>the \<open>'error'\<close> event of a request or a response\<close>
  | DownloadFailed       \<comment> \<open>line 474, no attempt was made\<close>
  | NoMediaPlaylist      \<comment> \<open>line 239\<close>
  | NoSegments           \<comment> \<open>line 332\<close>
  | Cancelled            \<comment> \<open>line 345\<close>
  | TaskNotFound         \<comment> \<open>line 480\<close>
  | TaskIsDownloading    \<comment> \<open>line 484\<close>
  | InvalidURL           \<comment> \<open>\<open>TypeError\<close> of the \<open>URL\<close> constructor\<close>
  | OutOfRange           \<comment> \<open>\<open>RangeError\<close> of \<open>writeUInt32BE\<close>\<close>
  | CipherError          \<comment> \<open>\<open>createDecipheriv\<close>, \<open>update\<close> or \<open>final\<close>\<close>
  | AbortError           \<comment> \<open>a request destroyed through its abort signal\<close>
  | WriteError           \<comment> \<open>a rejected \<open>writeFile\<close>\<close>

type_synonym byte = "8 word"
type_synonym Buffer = "byte list"

text \<open>The fields of a parsed \<open>URL\<close> object that the manager reads.\<close>

record URL =
  protocol :: string
  host :: string
  href :: string

text \<open>What one HTTP GET delivers: a status code and a body, or a failed request.\<close>

datatype 'a response = Response nat 'a | Failed

text \<open>
  The platform is a parameter of the model: the \<open>URL\<close> constructor with one and with two
  arguments, the \<open>aes-128-cbc\<close> decipher without automatic padding (key, IV, data), and
  the network. \<open>http_text\<close> is the body decoded as text, \<open>http_bytes\<close> the body of the
  given attempt, \<open>http_file\<close> the advertised content length and the chunks of the body.
  \<open>writeFile_ok\<close> tells whether \<open>writeFile\<close> to a path succeeds.
\<close>

record env =
  URL_new :: "string \<Rightarrow> exn + URL"
  URL_new_base :: "string \<Rightarrow> string \<Rightarrow> exn + URL"
  createDecipheriv :: "Buffer \<Rightarrow> Buffer \<Rightarrow> Buffer \<Rightarrow> exn + Buffer"
  http_text :: "string \<Rightarrow> string response"
  http_bytes :: "string \<Rightarrow> nat \<Rightarrow> Buffer response"
  http_file :: "string \<Rightarrow> (nat option \<times> Buffer list) response"
  writeFile_ok :: "string \<Rightarrow> bool"

section \<open>Playlist resolution (downloadM3u8, lines 218 to 262)\<close>

text \<open>Lines 226 to 236: the scan for the first media playlist of a master playlist.\<close>

fun findMediaPlaylistUrl_loop :: "bool \<Rightarrow> string list \<Rightarrow> string option" where
  "findMediaPlaylistUrl_loop isNextLineUrl [] = None"
| "findMediaPlaylistUrl_loop isNextLineUrl (line # lines) =
     (let trimmed = trim line in
      if startsWith trimmed ''#EXT-X-STREAM-INF'' then findMediaPlaylistUrl_loop True lines
      else if isNextLineUrl \<and> trimmed \<noteq> [] \<and> \<not> startsWith trimmed ''#'' then Some trimmed
      else findMediaPlaylistUrl_loop isNextLineUrl lines)"

definition findMediaPlaylistUrl :: "string list \<Rightarrow> string option" where
  "findMediaPlaylistUrl lines = findMediaPlaylistUrl_loop False lines"

text \<open>Lines 243 to 254: the reference of the media playlist against the task's URL.\<close>

definition resolveMediaPlaylistUrl :: "env \<Rightarrow> string \<Rightarrow> string \<Rightarrow> exn + string" where
  "resolveMediaPlaylistUrl e taskUrl mediaPlaylistUrl =
     (case URL_new e taskUrl of
        Inl x \<Rightarrow> Inl x
      | Inr m3u8Url \<Rightarrow>
          if \<not> startsWith mediaPlaylistUrl ''http://'' \<and> \<not> startsWith mediaPlaylistUrl ''https://''
          then
            if startsWith mediaPlaylistUrl ''/''
            then Inr (protocol m3u8Url @ ''//'' @ host m3u8Url @ mediaPlaylistUrl)
            else
              (case URL_new_base e mediaPlaylistUrl
                      (substring0 taskUrl (lastIndexOf taskUrl CHR ''/'' + 1)) of
                 Inl x \<Rightarrow> Inl x
               | Inr u \<Rightarrow> Inr (href u))
          else Inr mediaPlaylistUrl)"

section \<open>Manifest parsing (downloadM3u8, lines 266 to 333)\<close>

text \<open>
  The three regular expressions of line 280 to 282. Each finds the leftmost position
  where the literal is followed by a non-empty run of the character class; the run is
  the captured group. \<open>URI\<close> also needs the closing quote after the run.
\<close>

fun matchRun :: "string \<Rightarrow> (char \<Rightarrow> bool) \<Rightarrow> string \<Rightarrow> string option" where
  "matchRun lit cls [] = None"
| "matchRun lit cls (c # s) =
     (if startsWith (c # s) lit \<and> takeWhile cls (drop (length lit) (c # s)) \<noteq> []
      then Some (takeWhile cls (drop (length lit) (c # s)))
      else matchRun lit cls s)"

fun matchQuoted :: "string \<Rightarrow> string \<Rightarrow> string option" where
  "matchQuoted lit [] = None"
| "matchQuoted lit (c # s) =
     (let run = takeWhile (\<lambda>x. x \<noteq> CHR 0x22) (drop (length lit) (c # s)) in
      if startsWith (c # s) lit \<and> run \<noteq> [] \<and> drop (length lit + length run) (c # s) \<noteq> []
      then Some run
      else matchQuoted lit s)"

definition isHexDigit :: "char \<Rightarrow> bool" where
  "isHexDigit c =
     ((48::nat) \<le> of_char c \<and> of_char c \<le> (57::nat)
      \<or> (65::nat) \<le> of_char c \<and> of_char c \<le> (70::nat)
      \<or> (97::nat) \<le> of_char c \<and> of_char c \<le> (102::nat))"

definition matchMETHOD :: "string \<Rightarrow> string option" where
  "matchMETHOD s = matchRun ''METHOD='' (\<lambda>x. x \<noteq> CHR '','') s"

definition matchURI :: "string \<Rightarrow> string option" where
  "matchURI s = matchQuoted (''URI='' @ [CHR 0x22]) s"

definition matchIV :: "string \<Rightarrow> string option" where
  "matchIV s = matchRun ''IV=0x'' isHexDigit s"

text \<open>\<open>Buffer.from(s, 'hex')\<close> on hexadecimal digits: one byte per pair, a last single
  digit is dropped.\<close>

definition hexVal :: "char \<Rightarrow> nat" where
  "hexVal c =
     (if of_char c \<le> (57::nat) then of_char c - 48
      else if of_char c \<le> (70::nat) then of_char c - 55
      else of_char c - 87)"

fun Buffer_from_hex :: "string \<Rightarrow> Buffer" where
  "Buffer_from_hex (a # b # s) = of_nat (16 * hexVal a + hexVal b) # Buffer_from_hex s"
| "Buffer_from_hex s = []"

text \<open>Lines 292 to 298: the address of the key.\<close>

definition resolveKeyUrl :: "URL \<Rightarrow> string \<Rightarrow> string \<Rightarrow> string" where
  "resolveKeyUrl m3u8Url baseUrl keyUrl =
     (if \<not> startsWith keyUrl ''http://'' \<and> \<not> startsWith keyUrl ''https://''
      then
        if startsWith keyUrl ''/'' then protocol m3u8Url @ ''//'' @ host m3u8Url @ keyUrl
        else baseUrl @ keyUrl
      else keyUrl)"

text \<open>Lines 319 to 325: the address of one segment.\<close>

definition resolveTsUrl :: "URL \<Rightarrow> string \<Rightarrow> string \<Rightarrow> string" where
  "resolveTsUrl m3u8Url baseUrl trimmed =
     (if startsWith trimmed ''http://'' \<or> startsWith trimmed ''https://'' then trimmed
      else if startsWith trimmed ''/'' then protocol m3u8Url @ ''//'' @ host m3u8Url @ trimmed
      else baseUrl @ trimmed)"

text \<open>Lines 313 to 329: the loop that pushes one address per segment line.\<close>

fun parseTsUrls :: "URL \<Rightarrow> string \<Rightarrow> string list \<Rightarrow> string list \<Rightarrow> string list" where
  "parseTsUrls m3u8Url baseUrl tsUrls [] = tsUrls"
| "parseTsUrls m3u8Url baseUrl tsUrls (line # lines) =
     (let trimmed = trim line in
      if trimmed \<noteq> [] \<and> \<not> startsWith trimmed ''#''
      then parseTsUrls m3u8Url baseUrl (tsUrls @ [resolveTsUrl m3u8Url baseUrl trimmed]) lines
      else parseTsUrls m3u8Url baseUrl tsUrls lines)"

section \<open>Segment decryption (decryptAES128, lines 384 to 411)\<close>

definition Buffer_alloc :: "nat \<Rightarrow> Buffer" where
  "Buffer_alloc n = replicate n 0"

text \<open>\<open>buf.writeUInt32BE(value, offset)\<close>: a \<open>RangeError\<close> when the value does not fit
  32 bits or the four bytes do not fit the buffer.\<close>

definition writeUInt32BE :: "Buffer \<Rightarrow> nat \<Rightarrow> nat \<Rightarrow> exn + Buffer" where
  "writeUInt32BE buf v offset =
     (if 2 ^ 32 \<le> v \<or> length buf < offset + 4 then Inl OutOfRange
      else Inr (take offset buf
             @ [of_nat (v div 2 ^ 24), of_nat (v div 2 ^ 16), of_nat (v div 2 ^ 8), of_nat v]
             @ drop (offset + 4) buf))"

text \<open>The body of the \<open>try\<close> block, lines 386 to 405.\<close>

definition decryptAES128_try ::
    "(Buffer \<Rightarrow> Buffer \<Rightarrow> Buffer \<Rightarrow> exn + Buffer) \<Rightarrow> Buffer \<Rightarrow> Buffer \<Rightarrow> Buffer option \<Rightarrow> nat
      \<Rightarrow> exn + Buffer" where
  "decryptAES128_try decipher data key iv segmentIndex =
     (if length data mod 16 \<noteq> 0 then Inr data
      else
        (case (case iv of
                 Some v \<Rightarrow> Inr v
               | None \<Rightarrow> writeUInt32BE (Buffer_alloc 16) segmentIndex 12) of
           Inl x \<Rightarrow> Inl x
         | Inr ivBuffer \<Rightarrow> decipher key ivBuffer data))"

text \<open>The function with its \<open>catch\<close>, lines 406 to 410.\<close>

definition decryptAES128 ::
    "(Buffer \<Rightarrow> Buffer \<Rightarrow> Buffer \<Rightarrow> exn + Buffer) \<Rightarrow> Buffer \<Rightarrow> Buffer \<Rightarrow> Buffer option \<Rightarrow> nat
      \<Rightarrow> exn + Buffer" where
  "decryptAES128 decipher data key iv segmentIndex =
     (case decryptAES128_try decipher data key iv segmentIndex of
        Inl x \<Rightarrow> Inr data
      | Inr plain \<Rightarrow> Inr plain)"

subsection \<open>Cipher block chaining\<close>

text \<open>
  The platform's \<open>aes-128-cbc\<close> over a block primitive \<open>D\<close> (the inverse cipher of one
  16-byte block under a key), and the matching encryption over the forward cipher
  \<open>E\<close>. The block primitive itself is a parameter.
\<close>

fun blocks16 :: "Buffer \<Rightarrow> Buffer list" where
  "blocks16 data = (if data = [] then [] else take 16 data # blocks16 (drop 16 data))"

definition xor_bytes :: "Buffer \<Rightarrow> Buffer \<Rightarrow> Buffer" where
  "xor_bytes a b = map2 (XOR) a b"

fun cbc_decrypt :: "(Buffer \<Rightarrow> Buffer) \<Rightarrow> Buffer \<Rightarrow> Buffer list \<Rightarrow> Buffer" where
  "cbc_decrypt d iv [] = []"
| "cbc_decrypt d iv (c # cs) = xor_bytes (d c) iv @ cbc_decrypt d c cs"

fun cbc_encrypt :: "(Buffer \<Rightarrow> Buffer) \<Rightarrow> Buffer \<Rightarrow> Buffer list \<Rightarrow> Buffer" where
  "cbc_encrypt f iv [] = []"
| "cbc_encrypt f iv (p # ps) = f (xor_bytes p iv) @ cbc_encrypt f (f (xor_bytes p iv)) ps"

definition aes_128_cbc_decipher ::
    "(Buffer \<Rightarrow> Buffer \<Rightarrow> Buffer) \<Rightarrow> Buffer \<Rightarrow> Buffer \<Rightarrow> Buffer \<Rightarrow> exn + Buffer" where
  "aes_128_cbc_decipher D key iv data =
     (if length key \<noteq> 16 \<or> length iv \<noteq> 16 then Inl CipherError
      else if length data mod 16 \<noteq> 0 then Inl CipherError
      else Inr (cbc_decrypt (D key) iv (blocks16 data)))"

definition aes_128_cbc_cipher ::
    "(Buffer \<Rightarrow> Buffer \<Rightarrow> Buffer) \<Rightarrow> Buffer \<Rightarrow> Buffer \<Rightarrow> Buffer \<Rightarrow> Buffer" where
  "aes_128_cbc_cipher E key iv data = cbc_encrypt (E key) iv (blocks16 data)"

section \<open>Network access (fetchContent, downloadSegmentToBuffer)\<close>

text \<open>Lines 413 to 435.\<close>

definition fetchContent :: "env \<Rightarrow> string \<Rightarrow> exn + string" where
  "fetchContent e u =
     (case http_text e u of
        Failed \<Rightarrow> Inl RequestError
      | Response statusCode data \<Rightarrow>
          if statusCode \<noteq> 200 then Inl (HttpError statusCode) else Inr data)"

text \<open>Lines 437 to 475: up to \<open>retries\<close> attempts; the waiting between them is not
  modelled.\<close>

function downloadSegmentToBuffer_loop ::
    "env \<Rightarrow> string \<Rightarrow> nat \<Rightarrow> nat \<Rightarrow> exn option \<Rightarrow> exn + Buffer" where
  "downloadSegmentToBuffer_loop e u retries attempt lastError =
     (if attempt < retries then
        (case http_bytes e u attempt of
           Response statusCode chunks \<Rightarrow>
             if statusCode \<noteq> 200
             then downloadSegmentToBuffer_loop e u retries (attempt + 1)
                    (Some (HttpError statusCode))
             else Inr chunks
         | Failed \<Rightarrow>
             downloadSegmentToBuffer_loop e u retries (attempt + 1) (Some RequestError))
      else (case lastError of Some x \<Rightarrow> Inl x | None \<Rightarrow> Inl DownloadFailed))"
  by pat_completeness auto
termination
  by (relation "measure (\<lambda>(e, u, retries, attempt, lastError). retries - attempt)") auto

definition downloadSegmentToBuffer :: "env \<Rightarrow> string \<Rightarrow> exn + Buffer" where
  "downloadSegmentToBuffer e u = downloadSegmentToBuffer_loop e u 3 0 None"

section \<open>Tasks and the manager\<close>

datatype status = Pending | Downloading | Completed | Error

text \<open>
  The task record. The episode index is an integer that a JavaScript number holds
  exactly and prints with all its digits, from \<open>-2^53\<close> to \<open>2^53 - 1\<close>: a signed word of
  54 bits. Fractional and larger numbers are excluded by the type.
\<close>

record OfflineDownloadTask =
  id_task :: string
  url :: string
  source :: string
  videoId :: string
  videoTitle :: string
  episodeIndex :: "54 word"
  status :: status
  progress :: nat
  totalSize :: nat
  downloadedSize :: nat
  error :: "exn option"
  createdAt :: nat
  filePath :: "string option"
  fileName :: string

text \<open>The argument of \<open>addTask\<close>.\<close>

record taskData =
  td_url :: string
  td_source :: string
  td_videoId :: string
  td_videoTitle :: string
  td_episodeIndex :: "54 word"

text \<open>
  The manager's fields and what they refer to. Task objects and abort controllers are
  shared between the maps and the running downloads, so they live in stores indexed
  by address: \<open>heap\<close> holds the task objects, \<open>controllers\<close> the \<open>aborted\<close> flag of every
  controller. The two \<open>Map\<close>s keep insertion order. \<open>disk\<close> holds the output files,
  \<open>metadata\<close> the content of \<open>metadata.json\<close> (\<open>None\<close> when there is no such file).
\<close>

record manager =
  heap :: "OfflineDownloadTask list"
  tasks :: "(string \<times> nat) list"
  controllers :: "bool list"
  activeDownloads :: "(string \<times> nat) list"
  disk :: "(string \<times> Buffer) list"
  metadata :: "OfflineDownloadTask list option"
  downloadDir :: string

text \<open>\<open>Array.from(this.tasks.values())\<close>.\<close>

definition tasks_values :: "manager \<Rightarrow> OfflineDownloadTask list" where
  "tasks_values m = map (\<lambda>p. heap m ! snd p) (tasks m)"

text \<open>An assignment to fields of the task object at an address.\<close>

definition task_update ::
    "nat \<Rightarrow> (OfflineDownloadTask \<Rightarrow> OfflineDownloadTask) \<Rightarrow> manager \<Rightarrow> manager" where
  "task_update a f m = m\<lparr>heap := (heap m)[a := f (heap m ! a)]\<rparr>"

text \<open>Lines 67 to 74; a failed write is logged and changes nothing, and is not modelled.\<close>

definition saveMetadata :: "manager \<Rightarrow> manager" where
  "saveMetadata m = m\<lparr>metadata := Some (tasks_values m)\<rparr>"

text \<open>The decimal text of an integer, as a template literal prints an episode index.\<close>

fun digits :: "nat \<Rightarrow> string" where
  "digits n =
     (if n < 10 then [''0123456789'' ! n]
      else digits (n div 10) @ [''0123456789'' ! (n mod 10)])"

definition String_of_int :: "int \<Rightarrow> string" where
  "String_of_int i = (if i < 0 then CHR ''-'' # digits (nat (- i)) else digits (nat i))"

text \<open>Lines 76 to 78.\<close>

definition generateFileName :: "string \<Rightarrow> string \<Rightarrow> 54 word \<Rightarrow> string" where
  "generateFileName src vid ep =
     src @ ''_'' @ vid @ ''_'' @ String_of_int (sint ep) @ ''.ts''"

text \<open>
  \<open>path.join\<close> of two arguments on a POSIX platform: the non-empty arguments joined by
  \<open>/\<close> and normalised. The normalisation drops empty and \<open>.\<close> segments, lets \<open>..\<close>
  remove the segment before it (above the start of a relative path it is kept, above
  the root it is dropped) and keeps a leading and a trailing separator.
\<close>

fun join_str :: "char \<Rightarrow> string list \<Rightarrow> string" where
  "join_str sep [] = []"
| "join_str sep [s] = s"
| "join_str sep (s # t # r) = s @ sep # join_str sep (t # r)"

fun normalizeSegments :: "bool \<Rightarrow> string list \<Rightarrow> string list \<Rightarrow> string list" where
  "normalizeSegments allowAboveRoot res [] = res"
| "normalizeSegments allowAboveRoot res (seg # segs) =
     normalizeSegments allowAboveRoot
       (if seg = [] \<or> seg = ''.'' then res
        else if seg = ''..'' then
          (if res \<noteq> [] \<and> last res \<noteq> ''..'' then butlast res
           else if allowAboveRoot then res @ [''..''] else res)
        else res @ [seg])
       segs"

definition path_normalize :: "string \<Rightarrow> string" where
  "path_normalize p =
     (if p = [] then ''.''
      else
        (case join_str CHR ''/''
                (normalizeSegments (hd p \<noteq> CHR ''/'') [] (split_str CHR ''/'' p)) of
           [] \<Rightarrow> if hd p = CHR ''/'' then ''/'' else if last p = CHR ''/'' then ''./'' else ''.''
         | c # r \<Rightarrow> (if hd p = CHR ''/'' then ''/'' else []) @ (c # r)
                     @ (if last p = CHR ''/'' then ''/'' else [])))"

definition path_join :: "string \<Rightarrow> string \<Rightarrow> string" where
  "path_join dir name =
     (if dir = [] then path_normalize name
      else if name = [] then path_normalize dir
      else path_normalize (dir @ ''/'' @ name))"

text \<open>\<open>path.dirname\<close> of a normalised path that does not end in a separator.\<close>

definition path_dirname :: "string \<Rightarrow> string" where
  "path_dirname p =
     (if lastIndexOf p CHR ''/'' < 0 then ''.''
      else if lastIndexOf p CHR ''/'' = 0 then ''/''
      else substring0 p (lastIndexOf p CHR ''/''))"

text \<open>
  \<open>Math.round((done / total) * 100)\<close> as the platform computes it, in double precision.
  A double is written as a fraction whose denominator is a power of two. \<open>toDouble\<close>
  rounds a non-negative fraction to 53 significant bits, ties to even (the range of
  the exponent is not modelled: the values here are far from its ends); \<open>doublings p q\<close>
  is the least \<open>k\<close> with \<open>q \<le> p * 2^k\<close>. The division and the multiplication by 100
  are each rounded, and \<open>Math.round\<close> takes the nearest integer, a tie upwards. No call
  passes a total of 0.
\<close>

function doublings :: "int \<Rightarrow> int \<Rightarrow> nat" where
  "doublings p q = (if p \<le> 0 \<or> q \<le> p then 0 else Suc (doublings (2 * p) q))"
  by pat_completeness auto
termination
  by (relation "measure (\<lambda>(p, q). nat (q - p))") auto

declare doublings.simps [simp del]

definition roundTiesToEven :: "int \<Rightarrow> int \<Rightarrow> int" where
  "roundTiesToEven n d =
     (if 2 * (n mod d) < d then n div d
      else if d < 2 * (n mod d) then n div d + 1
      else if even (n div d) then n div d else n div d + 1)"

definition toDouble :: "int \<times> int \<Rightarrow> int \<times> int" where
  "toDouble x =
     (case x of (p, q) \<Rightarrow>
        if p = 0 then (0, 1)
        else (roundTiesToEven (p * 2 ^ doublings p (q * 2 ^ 52))
                              (q * 2 ^ doublings (q * 2 ^ 53) (p + 1))
                * 2 ^ doublings (q * 2 ^ 53) (p + 1),
              2 ^ doublings p (q * 2 ^ 52)))"

definition Math_round :: "int \<times> int \<Rightarrow> int" where
  "Math_round x = (case x of (p, q) \<Rightarrow> (2 * p + q) div (2 * q))"

definition roundPercent :: "nat \<Rightarrow> nat \<Rightarrow> nat" where
  "roundPercent d n =
     nat (Math_round (case toDouble (int d, int n) of (p, q) \<Rightarrow> toDouble (p * 100, q)))"

subsection \<open>Suspended computations\<close>

text \<open>The local variables of \<open>downloadM3u8\<close> from line 266 on.\<close>

record m3u8_state =
  lines :: "string list"
  m3u8Url :: URL
  baseUrl :: string
  aesKey :: "Buffer option"
  aesIV :: "Buffer option"
  aesMethod :: "string option"
  tsUrls :: "string list"

text \<open>
  An asynchronous function runs until its next \<open>await\<close>; other calls run in between.
  A frame is a computation suspended at an \<open>await\<close>, with the local variables it needs
  to go on. Tasks and controllers are referred to by address. An \<open>await\<close> that is the
  last statement of its function leaves no frame.
\<close>

datatype frame =
    AddTask_saved string
      \<comment> \<open>line 123, the task id\<close>
  | RetryTask_saved string
      \<comment> \<open>line 492, the task id\<close>
  | DeleteTask_unlink string string
      \<comment> \<open>line 532, the task id and the file\<close>
  | DeleteTask_readdir string string
      \<comment> \<open>line 525, the task id and the directory\<close>
  | StartDownload_saved nat
      \<comment> \<open>line 137, the task\<close>
  | M3u8_fetch nat nat string
      \<comment> \<open>line 214: task, controller, address requested\<close>
  | M3u8_fetchMedia nat nat string
      \<comment> \<open>line 257: task, controller, \<open>mediaPlaylistUrl\<close>\<close>
  | M3u8_key nat nat m3u8_state "string list" string "string option"
      \<comment> \<open>line 302: the lines not yet scanned, \<open>keyUrl\<close>, \<open>ivMatch[1]\<close>\<close>
  | M3u8_segment nat nat m3u8_state nat "Buffer list"
      \<comment> \<open>line 351: \<open>i\<close> and \<open>segmentBuffers\<close>\<close>
  | M3u8_saved nat nat m3u8_state nat "Buffer list"
      \<comment> \<open>line 362\<close>
  | M3u8_write nat nat string Buffer
      \<comment> \<open>line 372: \<open>videoFilePath\<close> and \<open>mergedBuffer\<close>\<close>
  | File_request nat nat string string
      \<comment> \<open>line 166: task, controller, \<open>filePath\<close>, address requested\<close>
  | File_data nat nat string nat nat "Buffer list"
      \<comment> \<open>line 178: \<open>filePath\<close>, \<open>totalSize\<close>, \<open>downloadedSize\<close>, chunks to come\<close>

subsection \<open>startDownload and the two download paths\<close>

text \<open>Lines 150 to 155: the \<open>catch\<close> of \<open>startDownload\<close>.\<close>

definition startDownload_catch :: "manager \<Rightarrow> nat \<Rightarrow> exn \<Rightarrow> manager" where
  "startDownload_catch m a x =
     saveMetadata (task_update a (\<lambda>t. t\<lparr>status := Error, error := Some x\<rparr>) m)"

text \<open>Lines 147 to 149.\<close>

definition startDownload_finish :: "manager \<Rightarrow> nat \<Rightarrow> manager" where
  "startDownload_finish m a =
     saveMetadata (task_update a (\<lambda>t. t\<lparr>status := Completed, progress := 100\<rparr>) m)"

definition activeDownloads_delete :: "manager \<Rightarrow> nat \<Rightarrow> manager" where
  "activeDownloads_delete m a =
     m\<lparr>activeDownloads := AList.delete (id_task (heap m ! a)) (activeDownloads m)\<rparr>"

text \<open>Lines 378 to 381: the \<open>catch\<close> of \<open>downloadM3u8\<close>, rethrowing to \<open>startDownload\<close>.\<close>

definition downloadM3u8_catch :: "manager \<Rightarrow> nat \<Rightarrow> exn \<Rightarrow> manager" where
  "downloadM3u8_catch m a x = startDownload_catch (activeDownloads_delete m a) a x"

text \<open>Lines 343 to 351 and 365 to 372: the head of the segment loop, and the merge
  once the loop is left.\<close>

definition segmentLoop ::
    "manager \<Rightarrow> nat \<Rightarrow> nat \<Rightarrow> m3u8_state \<Rightarrow> nat \<Rightarrow> Buffer list \<Rightarrow> manager \<times> frame list" where
  "segmentLoop m a c st i segmentBuffers =
     (if i < length (tsUrls st) then
        if controllers m ! c then (downloadM3u8_catch m a Cancelled, [])
        else (m, [M3u8_segment a c st i segmentBuffers])
      else
        (m, [M3u8_write a c
               (path_join (downloadDir m)
                  (source (heap m ! a) @ ''_'' @ videoId (heap m ! a) @ ''_''
                     @ String_of_int (sint (episodeIndex (heap m ! a))) @ ''.ts''))
               (concat segmentBuffers)]))"

text \<open>Lines 312 to 341.\<close>

definition segmentsPhase ::
    "manager \<Rightarrow> nat \<Rightarrow> nat \<Rightarrow> m3u8_state \<Rightarrow> manager \<times> frame list" where
  "segmentsPhase m a c st =
     (let urls = parseTsUrls (m3u8Url st) (baseUrl st) [] (lines st) in
      if length urls = 0 then (downloadM3u8_catch m a NoSegments, [])
      else segmentLoop (task_update a (\<lambda>t. t\<lparr>totalSize := length urls\<rparr>) m) a c
             (st\<lparr>tsUrls := urls\<rparr>) 0 [])"

text \<open>Lines 277 to 310: the scan for key declarations, suspended at each key download.\<close>

fun keyLoop ::
    "manager \<Rightarrow> nat \<Rightarrow> nat \<Rightarrow> m3u8_state \<Rightarrow> string list \<Rightarrow> manager \<times> frame list" where
  "keyLoop m a c st [] = segmentsPhase m a c st"
| "keyLoop m a c st (line # rest) =
     (let trimmed = trim line in
      if startsWith trimmed ''#EXT-X-KEY:'' then
        (let st1 = (case matchMETHOD trimmed of
                      Some x \<Rightarrow> st\<lparr>aesMethod := Some x\<rparr>
                    | None \<Rightarrow> st)
         in case matchURI trimmed of
              Some keyUrl \<Rightarrow>
                if aesMethod st1 \<noteq> None \<and> aesMethod st1 \<noteq> Some ''NONE''
                then (m, [M3u8_key a c st1 rest
                            (resolveKeyUrl (m3u8Url st1) (baseUrl st1) keyUrl)
                            (matchIV trimmed)])
                else keyLoop m a c st1 rest
            | None \<Rightarrow> keyLoop m a c st1 rest)
      else keyLoop m a c st rest)"

text \<open>Lines 266 to 275.\<close>

definition parseM3u8 ::
    "env \<Rightarrow> manager \<Rightarrow> nat \<Rightarrow> nat \<Rightarrow> string \<Rightarrow> manager \<times> frame list" where
  "parseM3u8 e m a c m3u8Content =
     (case URL_new e (url (heap m ! a)) of
        Inl x \<Rightarrow> (downloadM3u8_catch m a x, [])
      | Inr u \<Rightarrow>
          keyLoop m a c
            \<lparr>lines = split_str (CHR 0x0A) m3u8Content, m3u8Url = u,
             baseUrl = substring0 (href u) (lastIndexOf (href u) CHR ''/'' + 1),
             aesKey = None, aesIV = None, aesMethod = None, tsUrls = []\<rparr>
            (split_str (CHR 0x0A) m3u8Content))"

text \<open>Lines 208 to 214.\<close>

definition downloadM3u8 :: "manager \<Rightarrow> nat \<Rightarrow> manager \<times> frame list" where
  "downloadM3u8 m a =
     (m\<lparr>controllers := controllers m @ [False],
        activeDownloads :=
          AList.update (id_task (heap m ! a)) (length (controllers m)) (activeDownloads m)\<rparr>,
      [M3u8_fetch a (length (controllers m)) (url (heap m ! a))])"

text \<open>Lines 159 to 166.\<close>

definition downloadFile :: "manager \<Rightarrow> nat \<Rightarrow> manager \<times> frame list" where
  "downloadFile m a =
     (m\<lparr>controllers := controllers m @ [False],
        activeDownloads :=
          AList.update (id_task (heap m ! a)) (length (controllers m)) (activeDownloads m)\<rparr>,
      [File_request a (length (controllers m))
         (path_join (downloadDir m) (fileName (heap m ! a))) (url (heap m ! a))])"

subsection \<open>startDownload: choice of the download path\<close>

datatype download_path = HLS | DirectFile

text \<open>Line 139: \<open>task.url.toLowerCase().includes('.m3u8')\<close>.\<close>

definition isM3u8 :: "string \<Rightarrow> bool" where
  "isM3u8 u = includes_str (toLowerCase u) ''.m3u8''"

text \<open>Lines 141 to 145: the branch of \<open>startDownload\<close>.\<close>

definition choosePath :: "string \<Rightarrow> download_path" where
  "choosePath u = (if isM3u8 u then HLS else DirectFile)"


text \<open>Lines 131 to 137: \<open>startDownload\<close> up to its first \<open>await\<close>.\<close>

definition startDownload :: "manager \<Rightarrow> string \<Rightarrow> manager \<times> frame list" where
  "startDownload m taskId =
     (case map_of (tasks m) taskId of
        None \<Rightarrow> (m, [])
      | Some a \<Rightarrow>
          (saveMetadata (task_update a (\<lambda>t. t\<lparr>status := Downloading\<rparr>) m),
           [StartDownload_saved a]))"

subsection \<open>One step of a suspended computation\<close>

text \<open>
  Each equation is the code between two \<open>await\<close>s. In the direct-file path the
  response, every chunk of the body and the end of the file stream each take a step.
  A request aborted through its signal, before or after its response, raises the
  request's \<open>error\<close> event (lines 200 to 203). A rejected \<open>writeFile\<close> of the merged
  file is thrown like any other exception of \<open>downloadM3u8\<close>; the write stream of the
  direct-file path is taken to open and to accept every chunk. A removal that fails is
  caught at line 534 and changes nothing.
\<close>

fun step :: "env \<Rightarrow> manager \<Rightarrow> frame \<Rightarrow> manager \<times> frame list" where
  "step e m (AddTask_saved taskId) = startDownload m taskId"
| "step e m (RetryTask_saved taskId) = startDownload m taskId"
| "step e m (DeleteTask_unlink taskId p) =
     (saveMetadata (m\<lparr>disk := AList.delete p (disk m),
                       tasks := AList.delete taskId (tasks m)\<rparr>), [])"
| "step e m (DeleteTask_readdir taskId videoDir) =
     (saveMetadata
        (m\<lparr>disk := filter (\<lambda>f. path_dirname (fst f) \<noteq> videoDir) (disk m),
           metadata := (if videoDir = downloadDir m then None else metadata m),
           tasks := AList.delete taskId (tasks m)\<rparr>), [])"
| "step e m (StartDownload_saved a) =
     (case choosePath (url (heap m ! a)) of
        HLS \<Rightarrow> downloadM3u8 m a
      | DirectFile \<Rightarrow> downloadFile m a)"
| "step e m (M3u8_fetch a c u) =
     (case fetchContent e u of
        Inl x \<Rightarrow> (downloadM3u8_catch m a x, [])
      | Inr m3u8Content \<Rightarrow>
          if includes_str m3u8Content ''#EXT-X-STREAM-INF'' then
            (case findMediaPlaylistUrl (split_str (CHR 0x0A) m3u8Content) of
               None \<Rightarrow> (downloadM3u8_catch m a NoMediaPlaylist, [])
             | Some r \<Rightarrow>
                 (case resolveMediaPlaylistUrl e (url (heap m ! a)) r of
                    Inl x \<Rightarrow> (downloadM3u8_catch m a x, [])
                  | Inr mediaPlaylistUrl \<Rightarrow> (m, [M3u8_fetchMedia a c mediaPlaylistUrl])))
          else parseM3u8 e m a c m3u8Content)"
| "step e m (M3u8_fetchMedia a c mediaPlaylistUrl) =
     (case fetchContent e mediaPlaylistUrl of
        Inl x \<Rightarrow> (downloadM3u8_catch m a x, [])
      | Inr m3u8Content \<Rightarrow>
          parseM3u8 e (task_update a (\<lambda>t. t\<lparr>url := mediaPlaylistUrl\<rparr>) m) a c m3u8Content)"
| "step e m (M3u8_key a c st rest keyUrl ivMatch) =
     (case downloadSegmentToBuffer e keyUrl of
        Inl x \<Rightarrow> (downloadM3u8_catch m a x, [])
      | Inr k \<Rightarrow>
          keyLoop m a c
            (case ivMatch of
               Some h \<Rightarrow> st\<lparr>aesKey := Some k, aesIV := Some (Buffer_from_hex h)\<rparr>
             | None \<Rightarrow> st\<lparr>aesKey := Some k\<rparr>)
            rest)"
| "step e m (M3u8_segment a c st i segmentBuffers) =
     (case downloadSegmentToBuffer e (tsUrls st ! i) of
        Inl x \<Rightarrow> (downloadM3u8_catch m a x, [])
      | Inr segmentBuffer \<Rightarrow>
          (case (case aesKey st of
                   Some k \<Rightarrow>
                     if aesMethod st = Some ''AES-128''
                     then decryptAES128 (createDecipheriv e) segmentBuffer k (aesIV st) i
                     else Inr segmentBuffer
                 | None \<Rightarrow> Inr segmentBuffer) of
             Inl x \<Rightarrow> (downloadM3u8_catch m a x, [])
           | Inr plain \<Rightarrow>
               (saveMetadata
                  (task_update a
                     (\<lambda>t. t\<lparr>downloadedSize := i + 1,
                            progress := roundPercent (i + 1) (length (tsUrls st))\<rparr>) m),
                [M3u8_saved a c st i (segmentBuffers @ [plain])])))"
| "step e m (M3u8_saved a c st i segmentBuffers) = segmentLoop m a c st (i + 1) segmentBuffers"
| "step e m (M3u8_write a c videoFilePath mergedBuffer) =
     (if writeFile_ok e videoFilePath then
        (startDownload_finish
           (activeDownloads_delete
              (task_update a (\<lambda>t. t\<lparr>filePath := Some videoFilePath\<rparr>)
                 (m\<lparr>disk := AList.update videoFilePath mergedBuffer (disk m)\<rparr>)) a) a, [])
      else (downloadM3u8_catch m a WriteError, []))"
| "step e m (File_request a c fp u) =
     (if controllers m ! c then (startDownload_catch (activeDownloads_delete m a) a AbortError, [])
      else
        (case http_file e u of
           Failed \<Rightarrow> (startDownload_catch (activeDownloads_delete m a) a RequestError, [])
         | Response statusCode body \<Rightarrow>
             if statusCode \<noteq> 200 then (startDownload_catch m a (HttpError statusCode), [])
             else
               ((task_update a
                   (\<lambda>t. t\<lparr>totalSize := (case fst body of Some n \<Rightarrow> n | None \<Rightarrow> 0)\<rparr>) m)
                  \<lparr>disk := AList.update fp [] (disk m)\<rparr>,
                [File_data a c fp (case fst body of Some n \<Rightarrow> n | None \<Rightarrow> 0) 0 (snd body)])))"
| "step e m (File_data a c fp size0 downloaded chunks) =
     (if controllers m ! c then (startDownload_catch (activeDownloads_delete m a) a AbortError, [])
      else
        (case chunks of
           [] \<Rightarrow>
             (startDownload_finish
                (activeDownloads_delete (task_update a (\<lambda>t. t\<lparr>filePath := Some fp\<rparr>) m) a) a, [])
         | chunk # rest \<Rightarrow>
             ((task_update a
                 (\<lambda>t. t\<lparr>downloadedSize := downloaded + length chunk,
                        progress := (if size0 > 0
                                     then roundPercent (downloaded + length chunk) size0
                                     else 0)\<rparr>) m)
                \<lparr>disk := AList.update fp
                           (case map_of (disk m) fp of Some old \<Rightarrow> old @ chunk | None \<Rightarrow> chunk)
                           (disk m)\<rparr>,
              [File_data a c fp size0 (downloaded + length chunk) rest])))"

subsection \<open>The calls of the interface\<close>

text \<open>Lines 104 to 126, up to the \<open>await\<close> of line 123; \<open>taskId\<close> is the random identifier
  and \<open>now\<close> the clock.\<close>

definition createTask :: "manager \<Rightarrow> taskData \<Rightarrow> string \<Rightarrow> nat \<Rightarrow> manager \<times> string \<times> frame list" where
  "createTask m td taskId now =
     (saveMetadata
        (m\<lparr>heap := heap m @
              [\<lparr>id_task = taskId, url = td_url td, source = td_source td,
                videoId = td_videoId td, videoTitle = td_videoTitle td,
                episodeIndex = td_episodeIndex td, status = Pending, progress = 0,
                totalSize = 0, downloadedSize = 0, error = None, createdAt = now,
                filePath = None,
                fileName = generateFileName (td_source td) (td_videoId td) (td_episodeIndex td)\<rparr>],
           tasks := AList.update taskId (length (heap m)) (tasks m)\<rparr>),
      taskId, [AddTask_saved taskId])"

text \<open>Lines 87 to 129. The result is the new manager, the identifier the call returns
  and the frame it leaves.\<close>

definition addTask :: "manager \<Rightarrow> taskData \<Rightarrow> string \<Rightarrow> nat \<Rightarrow> manager \<times> string \<times> frame list" where
  "addTask m td taskId now =
     (case find (\<lambda>task. source task = td_source td \<and> videoId task = td_videoId td
                        \<and> episodeIndex task = td_episodeIndex td) (tasks_values m) of
        Some existingTask \<Rightarrow>
          if status existingTask = Completed \<or> status existingTask = Downloading
             \<or> status existingTask = Pending
          then (m, id_task existingTask, [])
          else createTask m td taskId now
      | None \<Rightarrow> createTask m td taskId now)"

text \<open>Lines 477 to 496.\<close>

definition retryTask :: "manager \<Rightarrow> string \<Rightarrow> exn + manager \<times> frame list" where
  "retryTask m taskId =
     (case map_of (tasks m) taskId of
        None \<Rightarrow> Inl TaskNotFound
      | Some a \<Rightarrow>
          if status (heap m ! a) = Downloading then Inl TaskIsDownloading
          else Inr (saveMetadata
                      (task_update a
                         (\<lambda>t. t\<lparr>status := Pending, progress := 0, downloadedSize := 0,
                                error := None\<rparr>) m),
                    [RetryTask_saved taskId]))"

text \<open>Lines 506 to 541, up to the first \<open>await\<close>.\<close>

definition abortDownload :: "manager \<Rightarrow> string \<Rightarrow> manager" where
  "abortDownload m taskId =
     (case map_of (activeDownloads m) taskId of
        Some c \<Rightarrow> m\<lparr>controllers := (controllers m)[c := True],
                     activeDownloads := AList.delete taskId (activeDownloads m)\<rparr>
      | None \<Rightarrow> m)"

definition deleteTask :: "manager \<Rightarrow> string \<Rightarrow> manager \<times> frame list" where
  "deleteTask m taskId =
     (case map_of (tasks m) taskId of
        None \<Rightarrow> (m, [])
      | Some a \<Rightarrow>
          (case filePath (heap m ! a) of
             Some p \<Rightarrow>
               if endsWith p ''.m3u8''
               then (abortDownload m taskId, [DeleteTask_readdir taskId (path_dirname p)])
               else (abortDownload m taskId, [DeleteTask_unlink taskId p])
           | None \<Rightarrow>
               (saveMetadata
                  ((abortDownload m taskId)\<lparr>tasks := AList.delete taskId (tasks m)\<rparr>), [])))"

text \<open>Lines 38 to 65: the constructor on a download directory with its files.\<close>

definition new_manager ::
    "string \<Rightarrow> (string \<times> Buffer) list \<Rightarrow> OfflineDownloadTask list option \<Rightarrow> manager" where
  "new_manager dir files meta =
     \<lparr>heap = [], tasks = [], controllers = [], activeDownloads = [], disk = files,
      metadata = meta, downloadDir = dir\<rparr>"

fun init_loop :: "manager \<Rightarrow> OfflineDownloadTask list \<Rightarrow> manager \<times> frame list" where
  "init_loop m [] = (m, [])"
| "init_loop m (task # rest) =
     (case (if status task = Downloading \<or> status task = Pending
            then startDownload
                   (task_update (length (heap m)) (\<lambda>t. t\<lparr>status := Pending\<rparr>)
                      (m\<lparr>heap := heap m @ [task],
                         tasks := AList.update (id_task task) (length (heap m)) (tasks m)\<rparr>))
                   (id_task task)
            else (m\<lparr>heap := heap m @ [task],
                     tasks := AList.update (id_task task) (length (heap m)) (tasks m)\<rparr>, []))
      of (m1, started) \<Rightarrow>
        (case init_loop m1 rest of (m2, started') \<Rightarrow> (m2, started @ started')))"

definition init :: "manager \<Rightarrow> manager \<times> frame list" where
  "init m = (case metadata m of None \<Rightarrow> (m, []) | Some ts \<Rightarrow> init_loop m ts)"

section \<open>The playlist phase as one computation\<close>

text \<open>
  Lines 214 to 333 of \<open>downloadM3u8\<close> read as one computation, which is what a task
  does when nothing else touches its record while it waits for its playlists and keys.
  \<open>fetchMediaPlaylist\<close> is lines 214 to 262: the address and the text of the playlist
  that is parsed. \<open>keyScan\<close> is the loop of lines 277 to 310 with every key downloaded.
  \<open>parsePlaylist\<close> is lines 266 to 333: the local variables with which the segment loop
  is entered, or the exception thrown before it.
\<close>

definition fetchMediaPlaylist :: "env \<Rightarrow> string \<Rightarrow> exn + string \<times> string" where
  "fetchMediaPlaylist e taskUrl =
     (case fetchContent e taskUrl of
        Inl x \<Rightarrow> Inl x
      | Inr m3u8Content \<Rightarrow>
          if includes_str m3u8Content ''#EXT-X-STREAM-INF'' then
            (case findMediaPlaylistUrl (split_str (CHR 0x0A) m3u8Content) of
               None \<Rightarrow> Inl NoMediaPlaylist
             | Some r \<Rightarrow>
                 (case resolveMediaPlaylistUrl e taskUrl r of
                    Inl x \<Rightarrow> Inl x
                  | Inr mediaPlaylistUrl \<Rightarrow>
                      (case fetchContent e mediaPlaylistUrl of
                         Inl x \<Rightarrow> Inl x
                       | Inr mediaContent \<Rightarrow> Inr (mediaPlaylistUrl, mediaContent))))
          else Inr (taskUrl, m3u8Content))"

fun keyScan :: "env \<Rightarrow> m3u8_state \<Rightarrow> string list \<Rightarrow> exn + m3u8_state" where
  "keyScan e st [] = Inr st"
| "keyScan e st (line # rest) =
     (let trimmed = trim line in
      if startsWith trimmed ''#EXT-X-KEY:'' then
        (let st1 = (case matchMETHOD trimmed of
                      Some x \<Rightarrow> st\<lparr>aesMethod := Some x\<rparr>
                    | None \<Rightarrow> st)
         in case matchURI trimmed of
              Some keyUrl \<Rightarrow>
                if aesMethod st1 \<noteq> None \<and> aesMethod st1 \<noteq> Some ''NONE''
                then (case downloadSegmentToBuffer e
                             (resolveKeyUrl (m3u8Url st1) (baseUrl st1) keyUrl) of
                        Inl x \<Rightarrow> Inl x
                      | Inr k \<Rightarrow>
                          keyScan e
                            (case matchIV trimmed of
                               Some h \<Rightarrow> st1\<lparr>aesKey := Some k, aesIV := Some (Buffer_from_hex h)\<rparr>
                             | None \<Rightarrow> st1\<lparr>aesKey := Some k\<rparr>)
                            rest)
                else keyScan e st1 rest
            | None \<Rightarrow> keyScan e st1 rest)
      else keyScan e st rest)"

definition parsePlaylist :: "env \<Rightarrow> string \<Rightarrow> string \<Rightarrow> exn + m3u8_state" where
  "parsePlaylist e taskUrl m3u8Content =
     (case URL_new e taskUrl of
        Inl x \<Rightarrow> Inl x
      | Inr u \<Rightarrow>
          (case keyScan e
                  \<lparr>lines = split_str (CHR 0x0A) m3u8Content, m3u8Url = u,
                   baseUrl = substring0 (href u) (lastIndexOf (href u) CHR ''/'' + 1),
                   aesKey = None, aesIV = None, aesMethod = None, tsUrls = []\<rparr>
                  (split_str (CHR 0x0A) m3u8Content) of
             Inl x \<Rightarrow> Inl x
           | Inr st \<Rightarrow>
               (let urls = parseTsUrls (m3u8Url st) (baseUrl st) [] (lines st) in
                if length urls = 0 then Inl NoSegments else Inr (st\<lparr>tsUrls := urls\<rparr>))))"

text \<open>
  A suspended computation that waits for a playlist or for a key, and the state of a
  manager with the oldest suspended computation resumed if it is such a one. Iterated,
  this runs the playlist phase of a task to its end and then changes nothing.
\<close>

fun awaitsPlaylist :: "frame \<Rightarrow> bool" where
  "awaitsPlaylist (M3u8_fetch a c u) = True"
| "awaitsPlaylist (M3u8_fetchMedia a c u) = True"
| "awaitsPlaylist (M3u8_key a c st rest keyUrl ivMatch) = True"
| "awaitsPlaylist f = False"

definition resume_playlist :: "env \<Rightarrow> manager \<times> frame list \<Rightarrow> manager \<times> frame list" where
  "resume_playlist e s =
     (case s of
        (m, []) \<Rightarrow> (m, [])
      | (m, f # fs) \<Rightarrow>
          if awaitsPlaylist f then (case step e m f of (m', fs') \<Rightarrow> (m', fs' @ fs))
          else (m, f # fs))"

section \<open>Definitions that follow the specification's words\<close>

text \<open>
  The specification detects an HLS manifest ``by file extension of the URL'': the part
  of the address before a query or fragment ends in \<open>.m3u8\<close>, in either case.
\<close>

definition hasM3u8Extension :: "string \<Rightarrow> bool" where
  "hasM3u8Extension u =
     endsWith (toLowerCase (takeWhile (\<lambda>c. c \<noteq> CHR ''?'' \<and> c \<noteq> CHR ''#'') u)) ''.m3u8''"

text \<open>
  The specification resolves a reference ``using standard relative-URL rules
  (scheme-relative "//", absolute path "/", or same-directory relative)'' against the
  parsed base address.
\<close>

definition standardResolve :: "URL \<Rightarrow> string \<Rightarrow> string" where
  "standardResolve base r =
     (if startsWith r ''//'' then protocol base @ r
      else if startsWith r ''/'' then protocol base @ ''//'' @ host base @ r
      else substring0 (href base) (lastIndexOf (href base) CHR ''/'' + 1) @ r)"

text \<open>A non-comment, non-blank line of a playlist, and an absolute address: one that
  carries the scheme \<open>http\<close> or \<open>https\<close>, the two the manager fetches.\<close>

definition isSegmentLine :: "string \<Rightarrow> bool" where
  "isSegmentLine line = (trim line \<noteq> [] \<and> \<not> startsWith (trim line) ''#'')"

definition isAbsoluteUrl :: "string \<Rightarrow> bool" where
  "isAbsoluteUrl u = (startsWith u ''http://'' \<or> startsWith u ''https://'')"

section \<open>An example platform\<close>

text \<open>
  A platform for the concrete runs below. \<open>simple_URL\<close> is the \<open>URL\<close> constructor on
  addresses of the form \<open>http://host/path\<close> or \<open>https://host/path\<close> in lower case,
  without user information, port, query, fragment or dot segments, where the
  platform's parser changes nothing but an empty path; \<open>simple_URL_base\<close> resolves a
  plain relative path against such an address. On other inputs they report
  \<open>InvalidURL\<close>, which the platform need not do. The block primitive of the example
  cipher adds the key to the block bit by bit, and is its own inverse. Every write
  succeeds.
\<close>

definition simple_URL :: "string \<Rightarrow> exn + URL" where
  "simple_URL s =
     (if startsWith s ''https://'' \<and> takeWhile (\<lambda>c. c \<noteq> CHR ''/'') (drop 8 s) \<noteq> []
      then Inr \<lparr>protocol = ''https:'',
                host = takeWhile (\<lambda>c. c \<noteq> CHR ''/'') (drop 8 s),
                href = (if dropWhile (\<lambda>c. c \<noteq> CHR ''/'') (drop 8 s) = [] then s @ ''/'' else s)\<rparr>
      else if startsWith s ''http://'' \<and> takeWhile (\<lambda>c. c \<noteq> CHR ''/'') (drop 7 s) \<noteq> []
      then Inr \<lparr>protocol = ''http:'',
                host = takeWhile (\<lambda>c. c \<noteq> CHR ''/'') (drop 7 s),
                href = (if dropWhile (\<lambda>c. c \<noteq> CHR ''/'') (drop 7 s) = [] then s @ ''/'' else s)\<rparr>
      else Inl InvalidURL)"

definition simple_URL_base :: "string \<Rightarrow> string \<Rightarrow> exn + URL" where
  "simple_URL_base r b =
     (case simple_URL b of
        Inl x \<Rightarrow> Inl x
      | Inr u \<Rightarrow> simple_URL (substring0 (href u) (lastIndexOf (href u) CHR ''/'' + 1) @ r))"

definition xor_block :: "Buffer \<Rightarrow> Buffer \<Rightarrow> Buffer" where
  "xor_block key block = xor_bytes block key"

definition LF :: string where
  "LF = [CHR 0x0A]"

text \<open>A playlist with a key declaration, a comment, a blank line and two segments, one
  of them given by its path and set in blanks; and a playlist that declares a key and
  lists no segment.\<close>

definition encrypted_text :: string where
  "encrypted_text =
     ''#EXTM3U'' @ LF
       @ ''#EXT-X-KEY:METHOD=AES-128,URI='' @ [CHR 0x22] @ ''k.key'' @ [CHR 0x22] @ LF
       @ ''s0.ts'' @ LF @ LF @ '' /v/s1.ts ''"

definition keyonly_text :: string where
  "keyonly_text =
     ''#EXTM3U'' @ LF
       @ ''#EXT-X-KEY:METHOD=AES-128,URI='' @ [CHR 0x22] @ ''gone.key'' @ [CHR 0x22]"

definition example_text :: "string \<Rightarrow> string response" where
  "example_text u =
     (if u = ''https://host/a/master.m3u8''
      then Response 200 (''#EXT-X-STREAM-INF:BANDWIDTH=1'' @ LF @ ''media.m3u8'')
      else if u = ''https://host/a/media.m3u8''
      then Response 200 (''#EXTINF:4,'' @ LF @ ''s0.ts'')
      else if u = ''http://h/one.m3u8'' then Response 200 ''s0.ts''
      else if u = ''http://h/three.m3u8''
      then Response 200 (''s0.ts'' @ LF @ ''s1.ts'' @ LF @ ''s2.ts'')
      else if u = ''http://h/broken.m3u8''
      then Response 200 (''s0.ts'' @ LF @ ''s1.ts'' @ LF @ ''gone.ts'')
      else if u = ''http://h/enc.m3u8'' then Response 200 encrypted_text
      else if u = ''http://h/keyonly.m3u8'' then Response 200 keyonly_text
      else Response 404 [])"

definition example_bytes :: "string \<Rightarrow> nat \<Rightarrow> Buffer response" where
  "example_bytes u attempt =
     (if u = ''http://h/s0.ts'' then Response 200 [1, 2]
      else if u = ''http://h/s1.ts'' then Response 200 [3]
      else if u = ''http://h/s2.ts'' then Response 200 [4, 5]
      else if u = ''https://host/a/s0.ts'' then Response 200 [4]
      else if u = ''http://h/k.key'' then Response 200 [1, 2, 3, 4, 5, 6, 7, 8, 9, 10, 11, 12, 13, 14, 15, 16]
      else Response 404 [])"

definition example_env :: env where
  "example_env =
     \<lparr>URL_new = simple_URL, URL_new_base = simple_URL_base,
      createDecipheriv = aes_128_cbc_decipher xor_block,
      http_text = example_text, http_bytes = example_bytes,
      http_file = (\<lambda>u. if u = ''http://h/f.mp4'' then Response 200 (Some 4, [[1, 2], [3, 4]])
                        else Failed),
      writeFile_ok = (\<lambda>p. True)\<rparr>"

definition master_example :: manager where
  "master_example =
     fst (createTask (new_manager ''/d'' [] None)
            \<lparr>td_url = ''https://host/a/master.m3u8'', td_source = ''src'', td_videoId = ''vid'',
             td_videoTitle = ''title'', td_episodeIndex = 0\<rparr> ''t1'' 0)"

section \<open>Runs of the manager\<close>

text \<open>
  The states a manager goes through, with the computations suspended in it: a manager
  constructed on a directory without \<open>metadata.json\<close>, then any calls of the
  interface, any suspended computation resumed, and a restart of the process on the
  files it left (which drops the suspended computations).
\<close>

inductive reachable :: "env \<Rightarrow> manager \<times> frame list \<Rightarrow> bool" for e :: env where
  start: "reachable e (new_manager dir files None, [])"
| call_addTask:
    "reachable e (m, fs) \<Longrightarrow> addTask m td taskId now = (m', r, fs')
      \<Longrightarrow> reachable e (m', fs @ fs')"
| call_retryTask:
    "reachable e (m, fs) \<Longrightarrow> retryTask m taskId = Inr (m', fs')
      \<Longrightarrow> reachable e (m', fs @ fs')"
| call_deleteTask:
    "reachable e (m, fs) \<Longrightarrow> deleteTask m taskId = (m', fs')
      \<Longrightarrow> reachable e (m', fs @ fs')"
| resume:
    "reachable e (m, fs @ f # fs') \<Longrightarrow> step e m f = (m', fs'')
      \<Longrightarrow> reachable e (m', fs @ fs'' @ fs')"
| restart:
    "reachable e (m, fs)
      \<Longrightarrow> init (new_manager (downloadDir m) (disk m) (metadata m)) = (m', fs')
      \<Longrightarrow> reachable e (m', fs')"

text \<open>What holds of every task record, of the manager and of a suspended computation
  in such a run.\<close>

definition recorded_ok :: "OfflineDownloadTask \<Rightarrow> bool" where
  "recorded_ok t =
     (fileName t = generateFileName (source t) (videoId t) (episodeIndex t)
      \<and> (case filePath t of None \<Rightarrow> True | Some p \<Rightarrow> endsWith p ''.ts''))"

definition manager_ok :: "manager \<Rightarrow> bool" where
  "manager_ok m =
     (list_all recorded_ok (heap m)
      \<and> list_all (\<lambda>p. snd p < length (heap m)) (tasks m)
      \<and> (case metadata m of None \<Rightarrow> True | Some ts \<Rightarrow> list_all recorded_ok ts))"

fun frame_ok :: "nat \<Rightarrow> frame \<Rightarrow> bool" where
  "frame_ok n (StartDownload_saved a) = (a < n)"
| "frame_ok n (M3u8_write a c p d) = endsWith p ''.ts''"
| "frame_ok n (File_request a c fp u) = endsWith fp ''.ts''"
| "frame_ok n (File_data a c fp s d chunks) = endsWith fp ''.ts''"
| "frame_ok n (DeleteTask_readdir taskId videoDir) = False"
| "frame_ok n f = True"

text \<open>The property of a result: the manager is in order, the heap has not shrunk, and
  the frames left are in order.\<close>

definition result_ok :: "manager \<Rightarrow> manager \<times> frame list \<Rightarrow> bool" where
  "result_ok m r =
     (manager_ok (fst r) \<and> length (heap m) \<le> length (heap (fst r))
      \<and> list_all (frame_ok (length (heap (fst r)))) (snd r))"

section \<open>Concrete runs\<close>

text \<open>
  A run is driven from outside: \<open>advance\<close> resumes the oldest suspended computation,
  \<open>call_addTask\<close> and \<open>call_deleteTask\<close> make a call of the interface, and
  \<open>restart_process\<close> constructs a new manager on the files the old one left.
\<close>

definition advance :: "env \<Rightarrow> manager \<times> frame list \<Rightarrow> manager \<times> frame list" where
  "advance e s =
     (case s of
        (m, []) \<Rightarrow> (m, [])
      | (m, f # fs) \<Rightarrow> (case step e m f of (m', fs') \<Rightarrow> (m', fs' @ fs)))"

definition call_addTask ::
    "taskData \<Rightarrow> string \<Rightarrow> nat \<Rightarrow> manager \<times> frame list \<Rightarrow> manager \<times> frame list" where
  "call_addTask td taskId now s =
     (case s of (m, fs) \<Rightarrow>
        (case addTask m td taskId now of (m', r, fs') \<Rightarrow> (m', fs @ fs')))"

definition call_deleteTask :: "string \<Rightarrow> manager \<times> frame list \<Rightarrow> manager \<times> frame list" where
  "call_deleteTask taskId s =
     (case s of (m, fs) \<Rightarrow> (case deleteTask m taskId of (m', fs') \<Rightarrow> (m', fs @ fs')))"

definition restart_process :: "manager \<times> frame list \<Rightarrow> manager \<times> frame list" where
  "restart_process s =
     init (new_manager (downloadDir (fst s)) (disk (fst s)) (metadata (fst s)))"

definition example_data :: "string \<Rightarrow> taskData" where
  "example_data u =
     \<lparr>td_url = u, td_source = ''src'', td_videoId = ''vid'', td_videoTitle = ''title'',
      td_episodeIndex = 0\<rparr>"

text \<open>A task on a playlist of one segment, added to a new manager; the same task when
  the request for its only segment is under way; and the task completed.\<close>

definition added_example :: "manager \<times> frame list" where
  "added_example =
     call_addTask (example_data ''http://h/one.m3u8'') ''t1'' 0 (new_manager ''/d'' [] None, [])"

definition fetching_example :: "manager \<times> frame list" where
  "fetching_example = advance example_env (advance example_env (advance example_env added_example))"

definition completed_example :: "manager \<times> frame list" where
  "completed_example =
     advance example_env (advance example_env (advance example_env fetching_example))"

text \<open>The task deleted while the request for its only segment is under way, and the
  run that was interrupted carried on to its end.\<close>

definition deleted_example :: "manager \<times> frame list" where
  "deleted_example =
     advance example_env (advance example_env (advance example_env
       (call_deleteTask ''t1'' fetching_example)))"

text \<open>A task on a playlist of three segments with two of them downloaded; the process
  restarted at that point, up to the request for the first segment; and one step
  further.\<close>

definition two_of_three_example :: "manager \<times> frame list" where
  "two_of_three_example =
     (advance example_env ^^ 7)
       (call_addTask (example_data ''http://h/three.m3u8'') ''t1'' 0
          (new_manager ''/d'' [] None, []))"

definition resumed_example :: "manager \<times> frame list" where
  "resumed_example =
     advance example_env (advance example_env (restart_process two_of_three_example))"

definition resumed_tick_example :: "manager \<times> frame list" where
  "resumed_tick_example = advance example_env resumed_example"

text \<open>A task whose playlist cannot be fetched, failed; the same content submitted a
  second time.\<close>

definition failed_once_example :: "manager \<times> frame list" where
  "failed_once_example =
     (advance example_env ^^ 3)
       (call_addTask (example_data ''http://h/none.m3u8'') ''a'' 0
          (new_manager ''/d'' [] None, []))"

definition submitted_twice_example :: "manager \<times> frame list" where
  "submitted_twice_example =
     call_addTask (example_data ''http://h/none.m3u8'') ''b'' 1 failed_once_example"

text \<open>A task on the playlist that declares a key which cannot be downloaded and lists
  no segment, run to its end.\<close>

definition keyonly_example :: "manager \<times> frame list" where
  "keyonly_example =
     (advance example_env ^^ 4)
       (call_addTask (example_data ''http://h/keyonly.m3u8'') ''t1'' 0
          (new_manager ''/d'' [] None, []))"

text \<open>A task on the playlist with a key, at the request for its playlist.\<close>

definition encrypted_example :: "manager \<times> frame list" where
  "encrypted_example =
     (advance example_env ^^ 2)
       (call_addTask (example_data ''http://h/enc.m3u8'') ''t1'' 0
          (new_manager ''/d'' [] None, []))"

text \<open>A task on a playlist of three segments, the third of which cannot be downloaded:
  the task while it downloads the first segment, and the task failed after two.\<close>

definition downloading_example :: "manager \<times> frame list" where
  "downloading_example =
     (advance example_env ^^ 3)
       (call_addTask (example_data ''http://h/broken.m3u8'') ''t1'' 0
          (new_manager ''/d'' [] None, []))"

definition failed_example :: "manager \<times> frame list" where
  "failed_example = (advance example_env ^^ 5) downloading_example"

section \<open>Facts about the string functions\<close>

lemma startsWith_iff: "startsWith s p \<longleftrightarrow> (\<exists>t. s = p @ t)"
proof
  assume "startsWith s p"
  then have "s = p @ drop (length p) s"
    by (metis append_take_drop_id startsWith_def)
  then show "\<exists>t. s = p @ t" ..
next
  assume "\<exists>t. s = p @ t"
  then show "startsWith s p" by (auto simp: startsWith_def)
qed

lemma endsWith_iff: "endsWith s p \<longleftrightarrow> (\<exists>t. s = t @ p)"
proof
  assume "endsWith s p"
  then have "s = take (length s - length p) s @ p"
    by (metis append_take_drop_id endsWith_def)
  then show "\<exists>t. s = t @ p" ..
next
  assume "\<exists>t. s = t @ p"
  then show "endsWith s p" by (auto simp: endsWith_def)
qed

lemma includes_str_iff: "includes_str s p \<longleftrightarrow> (\<exists>pre post. s = pre @ p @ post)"
proof (induction s)
  case Nil
  then show ?case by auto
next
  case (Cons c s)
  show ?case
  proof
    assume "includes_str (c # s) p"
    then consider "startsWith (c # s) p" | "includes_str s p" by auto
    then show "\<exists>pre post. c # s = pre @ p @ post"
    proof cases
      case 1
      then obtain t where "c # s = p @ t" by (auto simp: startsWith_iff)
      then have "c # s = [] @ p @ t" by simp
      then show ?thesis by blast
    next
      case 2
      then obtain pre post where "s = pre @ p @ post" using Cons.IH by auto
      then have "c # s = (c # pre) @ p @ post" by simp
      then show ?thesis by blast
    qed
  next
    assume "\<exists>pre post. c # s = pre @ p @ post"
    then obtain pre post where eq: "c # s = pre @ p @ post" by auto
    show "includes_str (c # s) p"
    proof (cases pre)
      case Nil
      then have "startsWith (c # s) p" using eq by (auto simp: startsWith_iff)
      then show ?thesis by simp
    next
      case (Cons x pre')
      then have "s = pre' @ p @ post" using eq by simp
      then have "includes_str s p" using Cons.IH by blast
      then show ?thesis by simp
    qed
  qed
qed

lemma split_str_not_Nil: "split_str sep s \<noteq> []"
  by (induction s) (auto split: list.splits)

lemma split_str_append:
  "sep \<notin> set w \<Longrightarrow>
   split_str sep (s @ w) = butlast (split_str sep s) @ [last (split_str sep s) @ w]"
proof (induction s)
  case Nil
  then show ?case by (induction w) (auto split: list.splits)
next
  case (Cons x s)
  then show ?case
    using split_str_not_Nil [of sep s]
    by (cases "split_str sep s") (auto split: list.splits)
qed

text \<open>The pieces of \<open>split_str\<close> hold no separator, and joined by it they give the text.\<close>

lemma split_str_pieces: "list_all (\<lambda>l. sep \<notin> set l) (split_str sep s)"
  by (induction s) (auto split: list.splits)

lemma join_str_Cons_char: "join_str sep ((c # a) # r) = c # join_str sep (a # r)"
  by (cases r) simp_all

lemma join_split_str: "join_str sep (split_str sep s) = s"
proof (induction s)
  case Nil
  then show ?case by simp
next
  case (Cons c s)
  then show ?case
    using split_str_not_Nil [of sep s]
    by (cases "split_str sep s") (auto simp: join_str_Cons_char split: list.splits)
qed

lemma hasM3u8Extension_isM3u8: "hasM3u8Extension u \<Longrightarrow> isM3u8 u"
proof -
  assume h: "hasM3u8Extension u"
  let ?p = "takeWhile (\<lambda>c. c \<noteq> CHR ''?'' \<and> c \<noteq> CHR ''#'') u"
  let ?q = "dropWhile (\<lambda>c. c \<noteq> CHR ''?'' \<and> c \<noteq> CHR ''#'') u"
  from h obtain t where t: "toLowerCase ?p = t @ ''.m3u8''"
    by (auto simp: hasM3u8Extension_def endsWith_iff)
  have "toLowerCase u = toLowerCase ?p @ toLowerCase ?q"
    unfolding toLowerCase_def by (metis map_append takeWhile_dropWhile_id)
  then have "toLowerCase u = t @ ''.m3u8'' @ toLowerCase ?q" using t by simp
  then show ?thesis unfolding isM3u8_def includes_str_iff by blast
qed

section \<open>The choice of the download path\<close>

text \<open>
  C8, as amended. \<open>startDownload\<close> takes the HLS path exactly when the lower-cased URL
  contains \<open>.m3u8\<close> anywhere, and the direct-file path otherwise; every URL whose file
  extension is \<open>.m3u8\<close> therefore takes the HLS path, and so do others.
\<close>

theorem choosePath_substring:
  "(choosePath u = HLS \<longleftrightarrow> (\<exists>pre post. toLowerCase u = pre @ ''.m3u8'' @ post))
   \<and> (choosePath u = DirectFile \<longleftrightarrow> \<not> (\<exists>pre post. toLowerCase u = pre @ ''.m3u8'' @ post))
   \<and> (hasM3u8Extension u \<longrightarrow> choosePath u = HLS)
   \<and> step e m (StartDownload_saved a) =
       (if choosePath (url (heap m ! a)) = HLS then downloadM3u8 m a else downloadFile m a)"
  using hasM3u8Extension_isM3u8 [of u]
  by (auto simp: choosePath_def isM3u8_def includes_str_iff)

theorem choosePath_substring_witness:
  "hasM3u8Extension ''http://h/v.M3U8?t=1'' \<and> choosePath ''http://h/v.M3U8?t=1'' = HLS"
proof -
  have h: "hasM3u8Extension ''http://h/v.M3U8?t=1''"
    by (simp add: hasM3u8Extension_def endsWith_def toLowerCase_def toLowerChar_def)
  with choosePath_substring [of "''http://h/v.M3U8?t=1''"] show ?thesis by blast
qed

text \<open>C8 as stated fails: an address with \<open>.m3u8\<close> in a directory name and the file
  extension \<open>.mp4\<close> takes the HLS path.\<close>

theorem choosePath_extension_counterexample:
  "choosePath ''http://h/a.m3u8.d/v.mp4'' = HLS \<and> \<not> hasM3u8Extension ''http://h/a.m3u8.d/v.mp4''"
  by (simp add: choosePath_def isM3u8_def hasM3u8Extension_def endsWith_def toLowerCase_def
      toLowerChar_def startsWith_def)

section \<open>Resolution of a master playlist\<close>

lemma streamInf_is_comment: "startsWith t ''#EXT-X-STREAM-INF'' \<Longrightarrow> startsWith t ''#''"
proof -
  assume "startsWith t ''#EXT-X-STREAM-INF''"
  then obtain r where "t = ''#EXT-X-STREAM-INF'' @ r" by (auto simp: startsWith_iff)
  then have "t = ''#'' @ (''EXT-X-STREAM-INF'' @ r)" by simp
  then show ?thesis unfolding startsWith_iff by blast
qed

lemma findMediaPlaylistUrl_loop_True:
  "findMediaPlaylistUrl_loop True ls = Some r \<Longrightarrow>
     \<exists>ys l zs. ls = ys @ l # zs \<and> list_all (\<lambda>y. \<not> isSegmentLine y) ys
        \<and> isSegmentLine l \<and> trim l = r"
proof (induction ls)
  case Nil
  then show ?case by simp
next
  case (Cons x ls)
  show ?case
  proof (cases "isSegmentLine x")
    case True
    then have nc: "\<not> startsWith (trim x) ''#EXT-X-STREAM-INF''"
      using streamInf_is_comment by (auto simp: isSegmentLine_def)
    with True Cons.prems have "trim x = r" by (simp add: isSegmentLine_def Let_def)
    with True have "x # ls = [] @ x # ls \<and> list_all (\<lambda>y. \<not> isSegmentLine y) []
        \<and> isSegmentLine x \<and> trim x = r" by simp
    then show ?thesis by blast
  next
    case False
    then have "findMediaPlaylistUrl_loop True ls = Some r"
      using Cons.prems by (auto simp: isSegmentLine_def Let_def split: if_splits)
    then obtain ys l zs where "ls = ys @ l # zs" "list_all (\<lambda>y. \<not> isSegmentLine y) ys"
        "isSegmentLine l" "trim l = r" using Cons.IH by blast
    with False have "x # ls = (x # ys) @ l # zs \<and> list_all (\<lambda>y. \<not> isSegmentLine y) (x # ys)
        \<and> isSegmentLine l \<and> trim l = r" by simp
    then show ?thesis by blast
  qed
qed

lemma findMediaPlaylistUrl_loop_False:
  "findMediaPlaylistUrl_loop False ls = Some r \<Longrightarrow>
     \<exists>xs s ys l zs. ls = xs @ s # ys @ l # zs
        \<and> list_all (\<lambda>x. \<not> startsWith (trim x) ''#EXT-X-STREAM-INF'') xs
        \<and> startsWith (trim s) ''#EXT-X-STREAM-INF''
        \<and> list_all (\<lambda>y. \<not> isSegmentLine y) ys
        \<and> isSegmentLine l \<and> trim l = r"
proof (induction ls)
  case Nil
  then show ?case by simp
next
  case (Cons x ls)
  show ?case
  proof (cases "startsWith (trim x) ''#EXT-X-STREAM-INF''")
    case True
    then have "findMediaPlaylistUrl_loop True ls = Some r"
      using Cons.prems by (simp add: Let_def)
    then obtain ys l zs where "ls = ys @ l # zs" "list_all (\<lambda>y. \<not> isSegmentLine y) ys"
        "isSegmentLine l" "trim l = r" using findMediaPlaylistUrl_loop_True by blast
    with True have "x # ls = [] @ x # ys @ l # zs
        \<and> list_all (\<lambda>x. \<not> startsWith (trim x) ''#EXT-X-STREAM-INF'') []
        \<and> startsWith (trim x) ''#EXT-X-STREAM-INF''
        \<and> list_all (\<lambda>y. \<not> isSegmentLine y) ys
        \<and> isSegmentLine l \<and> trim l = r" by simp
    then show ?thesis by blast
  next
    case False
    then have "findMediaPlaylistUrl_loop False ls = Some r"
      using Cons.prems by (simp add: Let_def)
    then obtain xs s ys l zs where "ls = xs @ s # ys @ l # zs"
        "list_all (\<lambda>x. \<not> startsWith (trim x) ''#EXT-X-STREAM-INF'') xs"
        "startsWith (trim s) ''#EXT-X-STREAM-INF''"
        "list_all (\<lambda>y. \<not> isSegmentLine y) ys" "isSegmentLine l" "trim l = r"
      using Cons.IH by blast
    with False have "x # ls = (x # xs) @ s # ys @ l # zs
        \<and> list_all (\<lambda>x. \<not> startsWith (trim x) ''#EXT-X-STREAM-INF'') (x # xs)
        \<and> startsWith (trim s) ''#EXT-X-STREAM-INF''
        \<and> list_all (\<lambda>y. \<not> isSegmentLine y) ys
        \<and> isSegmentLine l \<and> trim l = r" by simp
    then show ?thesis by blast
  qed
qed

text \<open>The functions that run after a playlist is fetched leave the task's URL alone.\<close>

lemma url_task_update:
  "(\<And>t. url (f t) = url t) \<Longrightarrow> url (heap (task_update a f m) ! b) = url (heap m ! b)"
  by (cases "a < length (heap m)") (auto simp: task_update_def nth_list_update list_update_beyond)

lemma url_saveMetadata [simp]: "heap (saveMetadata m) = heap m"
  by (simp add: saveMetadata_def)

lemma url_downloadM3u8_catch: "url (heap (downloadM3u8_catch m a x) ! b) = url (heap m ! b)"
  by (simp add: downloadM3u8_catch_def startDownload_catch_def activeDownloads_delete_def
      url_task_update)

lemma url_segmentLoop: "url (heap (fst (segmentLoop m a c st i bufs)) ! b) = url (heap m ! b)"
  by (simp add: segmentLoop_def url_downloadM3u8_catch)

lemma url_segmentsPhase: "url (heap (fst (segmentsPhase m a c st)) ! b) = url (heap m ! b)"
  by (simp add: segmentsPhase_def Let_def url_downloadM3u8_catch url_segmentLoop url_task_update)

lemma url_keyLoop: "url (heap (fst (keyLoop m a c st ls)) ! b) = url (heap m ! b)"
  by (induction ls arbitrary: st)
     (auto simp: url_segmentsPhase Let_def split: option.splits)

lemma url_parseM3u8: "url (heap (fst (parseM3u8 e m a c content)) ! b) = url (heap m ! b)"
  by (simp add: parseM3u8_def url_downloadM3u8_catch url_keyLoop split: sum.splits)

text \<open>
  C3, as amended. When the fetched manifest contains the stream-variant marker, the
  reference chosen is the first non-comment, non-blank line after the first line that
  starts with the stream-variant tag. A reference starting with \<open>http://\<close> or
  \<open>https://\<close> is taken as it is; one starting with \<open>/\<close> (a scheme-relative \<open>//\<close>
  reference too) is appended to the protocol, \<open>//\<close> and host of the task's URL; any
  other is resolved by the platform against the task's URL cut after its last \<open>/\<close>.
  Once the media playlist is fetched the task's \<open>url\<close> is that address, and the parse
  that follows takes its base from it.
\<close>

theorem master_playlist_resolution:
  assumes fetched: "fetchContent e u0 = Inr content"
    and master: "includes_str content ''#EXT-X-STREAM-INF''"
    and found: "findMediaPlaylistUrl (split_str (CHR 0x0A) content) = Some r"
    and base: "URL_new e (url (heap m ! a)) = Inr base"
    and resolved: "resolveMediaPlaylistUrl e (url (heap m ! a)) r = Inr mu"
    and fetched2: "fetchContent e mu = Inr content2"
    and parsed: "URL_new e mu = Inr u2"
    and a: "a < length (heap m)"
  shows "(\<exists>xs s ys l zs. split_str (CHR 0x0A) content = xs @ s # ys @ l # zs
            \<and> list_all (\<lambda>x. \<not> startsWith (trim x) ''#EXT-X-STREAM-INF'') xs
            \<and> startsWith (trim s) ''#EXT-X-STREAM-INF''
            \<and> list_all (\<lambda>y. \<not> isSegmentLine y) ys
            \<and> isSegmentLine l \<and> trim l = r)
       \<and> (if startsWith r ''http://'' \<or> startsWith r ''https://'' then mu = r
          else if startsWith r ''/'' then mu = protocol base @ ''//'' @ host base @ r
          else \<exists>u. URL_new_base e r
                      (substring0 (url (heap m ! a))
                         (lastIndexOf (url (heap m ! a)) CHR ''/'' + 1)) = Inr u
                    \<and> mu = href u)
       \<and> step e m (M3u8_fetch a c u0) = (m, [M3u8_fetchMedia a c mu])
       \<and> url (heap (fst (step e m (M3u8_fetchMedia a c mu))) ! a) = mu
       \<and> step e m (M3u8_fetchMedia a c mu) =
           keyLoop (task_update a (\<lambda>t. t\<lparr>url := mu\<rparr>) m) a c
             \<lparr>lines = split_str (CHR 0x0A) content2, m3u8Url = u2,
              baseUrl = substring0 (href u2) (lastIndexOf (href u2) CHR ''/'' + 1),
              aesKey = None, aesIV = None, aesMethod = None, tsUrls = []\<rparr>
             (split_str (CHR 0x0A) content2)"
proof -
  have scan: "\<exists>xs s ys l zs. split_str (CHR 0x0A) content = xs @ s # ys @ l # zs
            \<and> list_all (\<lambda>x. \<not> startsWith (trim x) ''#EXT-X-STREAM-INF'') xs
            \<and> startsWith (trim s) ''#EXT-X-STREAM-INF''
            \<and> list_all (\<lambda>y. \<not> isSegmentLine y) ys
            \<and> isSegmentLine l \<and> trim l = r"
    using found findMediaPlaylistUrl_loop_False unfolding findMediaPlaylistUrl_def by blast
  have rule: "if startsWith r ''http://'' \<or> startsWith r ''https://'' then mu = r
          else if startsWith r ''/'' then mu = protocol base @ ''//'' @ host base @ r
          else \<exists>u. URL_new_base e r
                      (substring0 (url (heap m ! a))
                         (lastIndexOf (url (heap m ! a)) CHR ''/'' + 1)) = Inr u
                    \<and> mu = href u"
    using resolved base by (auto simp: resolveMediaPlaylistUrl_def split: if_splits sum.splits)
  have step1: "step e m (M3u8_fetch a c u0) = (m, [M3u8_fetchMedia a c mu])"
    using fetched master found resolved by simp
  have upd: "url (heap (task_update a (\<lambda>t. t\<lparr>url := mu\<rparr>) m) ! a) = mu"
    using a by (simp add: task_update_def)
  have step2: "step e m (M3u8_fetchMedia a c mu) =
           keyLoop (task_update a (\<lambda>t. t\<lparr>url := mu\<rparr>) m) a c
             \<lparr>lines = split_str (CHR 0x0A) content2, m3u8Url = u2,
              baseUrl = substring0 (href u2) (lastIndexOf (href u2) CHR ''/'' + 1),
              aesKey = None, aesIV = None, aesMethod = None, tsUrls = []\<rparr>
             (split_str (CHR 0x0A) content2)"
    using fetched2 parsed upd by (simp add: parseM3u8_def)
  have kept: "url (heap (fst (step e m (M3u8_fetchMedia a c mu))) ! a) = mu"
    unfolding step2 using upd by (simp add: url_keyLoop)
  from scan rule step1 kept step2 show ?thesis by blast
qed

theorem master_playlist_resolution_witness:
  "findMediaPlaylistUrl
     (split_str (CHR 0x0A) (''#EXT-X-STREAM-INF:BANDWIDTH=1'' @ LF @ ''media.m3u8''))
     = Some ''media.m3u8''
   \<and> resolveMediaPlaylistUrl example_env ''https://host/a/master.m3u8'' ''media.m3u8''
     = Inr ''https://host/a/media.m3u8''
   \<and> step example_env master_example (M3u8_fetch 0 0 ''https://host/a/master.m3u8'')
     = (master_example, [M3u8_fetchMedia 0 0 ''https://host/a/media.m3u8''])
   \<and> url (heap (fst (step example_env master_example
                        (M3u8_fetchMedia 0 0 ''https://host/a/media.m3u8''))) ! 0)
     = ''https://host/a/media.m3u8''"
proof -
  have h1: "fetchContent example_env ''https://host/a/master.m3u8''
      = Inr (''#EXT-X-STREAM-INF:BANDWIDTH=1'' @ LF @ ''media.m3u8'')"
    by (simp add: fetchContent_def example_env_def example_text_def)
  have h2: "includes_str (''#EXT-X-STREAM-INF:BANDWIDTH=1'' @ LF @ ''media.m3u8'')
      ''#EXT-X-STREAM-INF''"
    by (simp add: startsWith_def)
  have h3: "findMediaPlaylistUrl
      (split_str (CHR 0x0A) (''#EXT-X-STREAM-INF:BANDWIDTH=1'' @ LF @ ''media.m3u8''))
      = Some ''media.m3u8''"
    by code_simp
  have u: "url (heap master_example ! 0) = ''https://host/a/master.m3u8''"
    by (simp add: master_example_def createTask_def new_manager_def saveMetadata_def)
  have h4: "URL_new example_env (url (heap master_example ! 0))
      = Inr \<lparr>protocol = ''https:'', host = ''host'', href = ''https://host/a/master.m3u8''\<rparr>"
    unfolding u by code_simp
  have h5: "resolveMediaPlaylistUrl example_env (url (heap master_example ! 0)) ''media.m3u8''
      = Inr ''https://host/a/media.m3u8''"
    unfolding u by code_simp
  have h6: "fetchContent example_env ''https://host/a/media.m3u8''
      = Inr (''#EXTINF:4,'' @ LF @ ''s0.ts'')"
    by (simp add: fetchContent_def example_env_def example_text_def)
  have h7: "URL_new example_env ''https://host/a/media.m3u8''
      = Inr \<lparr>protocol = ''https:'', host = ''host'', href = ''https://host/a/media.m3u8''\<rparr>"
    by code_simp
  have h8: "0 < length (heap master_example)"
    by (simp add: master_example_def createTask_def new_manager_def saveMetadata_def)
  note r = master_playlist_resolution [OF h1 h2 h3 h4 h5 h6 h7 h8, of 0]
  note s1 = r [THEN conjunct2, THEN conjunct2, THEN conjunct1]
  note s2 = r [THEN conjunct2, THEN conjunct2, THEN conjunct2, THEN conjunct1]
  from h3 h5 [unfolded u] s1 s2 show ?thesis by (intro conjI)
qed

text \<open>C3 as stated fails for a scheme-relative reference: it is treated as an absolute
  path on the host of the master playlist.\<close>

theorem scheme_relative_counterexample:
  "URL_new example_env ''https://host/a/master.m3u8''
     = Inr \<lparr>protocol = ''https:'', host = ''host'', href = ''https://host/a/master.m3u8''\<rparr>
   \<and> resolveMediaPlaylistUrl example_env ''https://host/a/master.m3u8'' ''//cdn/v/media.m3u8''
     = Inr ''https://host//cdn/v/media.m3u8''
   \<and> standardResolve
       \<lparr>protocol = ''https:'', host = ''host'', href = ''https://host/a/master.m3u8''\<rparr>
       ''//cdn/v/media.m3u8''
     = ''https://cdn/v/media.m3u8''"
  by code_simp

section \<open>Segment enumeration\<close>

lemma parseTsUrls_eq:
  "parseTsUrls u b acc ls
     = acc @ map (\<lambda>l. resolveTsUrl u b (trim l)) (filter isSegmentLine ls)"
  by (induction ls arbitrary: acc) (auto simp: Let_def isSegmentLine_def)

lemma lastIndexOf_from_found:
  "found < i \<Longrightarrow> found \<le> lastIndexOf_from s c i found"
proof (induction s arbitrary: i found)
  case Nil
  then show ?case by simp
next
  case (Cons x s)
  have "(if x = c then i else found) < i + 1" using Cons.prems by simp
  then have "(if x = c then i else found) \<le> lastIndexOf_from s c (i + 1) (if x = c then i else found)"
    by (rule Cons.IH)
  then show ?case using Cons.prems by (simp split: if_splits)
qed

lemma lastIndexOf_from_ge:
  "k < length s \<Longrightarrow> s ! k = c \<Longrightarrow> found < i \<Longrightarrow> i + int k \<le> lastIndexOf_from s c i found"
proof (induction s arbitrary: i found k)
  case Nil
  then show ?case by simp
next
  case (Cons x s)
  show ?case
  proof (cases k)
    case 0
    then have "x = c" using Cons.prems by simp
    then have "lastIndexOf_from (x # s) c i found = lastIndexOf_from s c (i + 1) i" by simp
    moreover have "i \<le> lastIndexOf_from s c (i + 1) i"
      by (rule lastIndexOf_from_found) simp
    ultimately show ?thesis using 0 by simp
  next
    case (Suc k')
    then have "k' < length s" "s ! k' = c" using Cons.prems by simp_all
    moreover have "(if x = c then i else found) < i + 1" using Cons.prems by simp
    ultimately have "i + 1 + int k' \<le> lastIndexOf_from s c (i + 1) (if x = c then i else found)"
      by (rule Cons.IH)
    then show ?thesis using Suc by simp
  qed
qed

lemma lastIndexOf_ge: "k < length s \<Longrightarrow> s ! k = c \<Longrightarrow> int k \<le> lastIndexOf s c"
  using lastIndexOf_from_ge [of k s c "-1" 0] by (simp add: lastIndexOf_def)

lemma directory_keeps_scheme:
  assumes "startsWith s (p @ ''//'')"
  shows "startsWith (substring0 s (lastIndexOf s CHR ''/'' + 1)) (p @ ''//'')"
proof -
  from assms obtain t where s: "s = (p @ ''//'') @ t" unfolding startsWith_iff by blast
  have "length p + 1 < length s" "s ! (length p + 1) = CHR ''/''"
    by (simp_all add: s nth_append)
  then have "int (length p + 1) \<le> lastIndexOf s CHR ''/''" by (rule lastIndexOf_ge)
  then have "length (p @ ''//'') \<le> nat (lastIndexOf s CHR ''/'' + 1)" by simp
  then have "take (nat (lastIndexOf s CHR ''/'' + 1)) s
      = (p @ ''//'') @ take (nat (lastIndexOf s CHR ''/'' + 1) - length (p @ ''//'')) t"
    unfolding s by (simp del: append_assoc)
  then show ?thesis unfolding startsWith_iff substring0_def by blast
qed

lemma resolveTsUrl_absolute:
  assumes "protocol u = ''http:'' \<or> protocol u = ''https:''"
    and "startsWith (href u) (protocol u @ ''//'')"
  shows "isAbsoluteUrl
           (resolveTsUrl u (substring0 (href u) (lastIndexOf (href u) CHR ''/'' + 1)) t)"
proof -
  let ?b = "substring0 (href u) (lastIndexOf (href u) CHR ''/'' + 1)"
  have b: "startsWith ?b (protocol u @ ''//'')"
    using assms(2) by (rule directory_keeps_scheme)
  then obtain r where r: "?b = (protocol u @ ''//'') @ r" unfolding startsWith_iff by blast
  have 1: "isAbsoluteUrl (?b @ t)"
  proof -
    have "?b @ t = (protocol u @ ''//'') @ (r @ t)" using r by simp
    then have "startsWith (?b @ t) (protocol u @ ''//'')" unfolding startsWith_iff by blast
    then show ?thesis using assms(1) by (auto simp: isAbsoluteUrl_def)
  qed
  have 2: "isAbsoluteUrl (protocol u @ ''//'' @ host u @ t)"
  proof -
    have "protocol u @ ''//'' @ host u @ t = (protocol u @ ''//'') @ (host u @ t)" by simp
    then have "startsWith (protocol u @ ''//'' @ host u @ t) (protocol u @ ''//'')"
      unfolding startsWith_iff by blast
    then show ?thesis using assms(1) by (auto simp: isAbsoluteUrl_def)
  qed
  show ?thesis using 1 2 by (auto simp: resolveTsUrl_def isAbsoluteUrl_def)
qed

lemma heap_saveMetadata: "heap (saveMetadata m) = heap m"
  by (simp add: saveMetadata_def)

lemma disk_saveMetadata: "disk (saveMetadata m) = disk m"
  by (simp add: saveMetadata_def)

lemma catch_sets_error:
  assumes "a < length (heap m)"
  shows "status (heap (downloadM3u8_catch m a x) ! a) = Error
       \<and> error (heap (downloadM3u8_catch m a x) ! a) = Some x
       \<and> disk (downloadM3u8_catch m a x) = disk m"
  using assms
  by (simp add: downloadM3u8_catch_def startDownload_catch_def activeDownloads_delete_def
      task_update_def saveMetadata_def)

subsection \<open>The playlist phase, resumed step by step, is the one computation\<close>

lemma resume_playlist_Nil: "resume_playlist e (m, []) = (m, [])"
  by (simp add: resume_playlist_def)

lemma resume_playlist_other:
  "\<not> awaitsPlaylist f \<Longrightarrow> resume_playlist e (m, f # fs) = (m, f # fs)"
  by (simp add: resume_playlist_def)

lemma resume_playlist_step:
  "awaitsPlaylist f \<Longrightarrow> resume_playlist e (m, [f]) = step e m f"
  by (simp add: resume_playlist_def split: prod.splits)

lemma resume_playlist_ended:
  "snd s = [] \<or> \<not> awaitsPlaylist (hd (snd s)) \<Longrightarrow> (resume_playlist e ^^ n) s = s"
proof (induction n)
  case 0
  then show ?case by simp
next
  case (Suc n)
  have "resume_playlist e s = s"
    using Suc.prems by (cases s; cases "snd s") (auto simp: resume_playlist_def)
  then show ?case using Suc by (simp add: funpow_swap1)
qed

lemma resume_playlist_catch: "(resume_playlist e ^^ n) (m, []) = (m, [])"
  by (rule resume_playlist_ended) simp

lemma resume_playlist_segmentLoop:
  "(resume_playlist e ^^ n) (segmentLoop m a c st i bufs) = segmentLoop m a c st i bufs"
  by (rule resume_playlist_ended) (simp add: segmentLoop_def)

lemma resume_playlist_segmentsPhase:
  "(resume_playlist e ^^ n) (segmentsPhase m a c st) = segmentsPhase m a c st"
  by (rule resume_playlist_ended) (simp add: segmentsPhase_def segmentLoop_def Let_def)

lemma keyLoop_keyScan:
  "length ls \<le> n \<Longrightarrow>
   (resume_playlist e ^^ n) (keyLoop m a c st ls)
     = (case keyScan e st ls of
          Inl x \<Rightarrow> (downloadM3u8_catch m a x, [])
        | Inr st1 \<Rightarrow> segmentsPhase m a c st1)"
proof (induction ls arbitrary: st n)
  case Nil
  then show ?case by (simp add: resume_playlist_segmentsPhase)
next
  case (Cons line rest)
  then obtain n' where n: "n = Suc n'" "length rest \<le> n'" by (cases n) auto
  have le: "length rest \<le> n" using n by simp
  define st1 where "st1 = (case matchMETHOD (trim line) of
                      Some x \<Rightarrow> st\<lparr>aesMethod := Some x\<rparr>
                    | None \<Rightarrow> st)"
  show ?case
  proof (cases "startsWith (trim line) ''#EXT-X-KEY:''")
    case False
    then show ?thesis using Cons.IH [OF le, of st] by (simp add: Let_def)
  next
    case key: True
    show ?thesis
    proof (cases "matchURI (trim line)")
      case None
      then show ?thesis
        using key Cons.IH [OF le, of st1] by (simp add: Let_def st1_def)
    next
      case (Some keyUrl)
      show ?thesis
      proof (cases "aesMethod st1 \<noteq> None \<and> aesMethod st1 \<noteq> Some ''NONE''")
        case False
        have "keyLoop m a c st (line # rest) = keyLoop m a c st1 rest"
          using key Some False unfolding st1_def by (auto simp: Let_def)
        moreover have "keyScan e st (line # rest) = keyScan e st1 rest"
          using key Some False unfolding st1_def by (auto simp: Let_def)
        ultimately show ?thesis using Cons.IH [OF le, of st1] by simp
      next
        case True
        let ?u = "resolveKeyUrl (m3u8Url st1) (baseUrl st1) keyUrl"
        have kl: "keyLoop m a c st (line # rest)
            = (m, [M3u8_key a c st1 rest ?u (matchIV (trim line))])"
          using key Some True unfolding st1_def by (simp add: Let_def)
        have ks: "keyScan e st (line # rest)
            = (case downloadSegmentToBuffer e ?u of
                 Inl x \<Rightarrow> Inl x
               | Inr k \<Rightarrow>
                   keyScan e
                     (case matchIV (trim line) of
                        Some h \<Rightarrow> st1\<lparr>aesKey := Some k, aesIV := Some (Buffer_from_hex h)\<rparr>
                      | None \<Rightarrow> st1\<lparr>aesKey := Some k\<rparr>)
                     rest)"
          using key Some True unfolding st1_def by (simp add: Let_def)
        have "(resume_playlist e ^^ n) (keyLoop m a c st (line # rest))
            = (resume_playlist e ^^ n')
                (step e m (M3u8_key a c st1 rest ?u (matchIV (trim line))))"
          unfolding kl n(1) by (simp add: funpow_swap1 resume_playlist_step)
        also have "\<dots> = (case keyScan e st (line # rest) of
                          Inl x \<Rightarrow> (downloadM3u8_catch m a x, [])
                        | Inr st1 \<Rightarrow> segmentsPhase m a c st1)"
        proof (cases "downloadSegmentToBuffer e ?u")
          case (Inl x)
          then show ?thesis unfolding ks by (simp add: resume_playlist_catch)
        next
          case (Inr k)
          then show ?thesis unfolding ks using Cons.IH [OF n(2)] by simp
        qed
        finally show ?thesis .
      qed
    qed
  qed
qed

lemma keyScan_fields:
  "keyScan e st ls = Inr st1 \<Longrightarrow>
   lines st1 = lines st \<and> m3u8Url st1 = m3u8Url st \<and> baseUrl st1 = baseUrl st"
  by (induction ls arbitrary: st)
     (auto simp: Let_def split: if_splits option.splits sum.splits)

lemma parseM3u8_parsePlaylist:
  "length (split_str (CHR 0x0A) content) \<le> n \<Longrightarrow>
   (resume_playlist e ^^ n) (parseM3u8 e m a c content)
     = (case parsePlaylist e (url (heap m ! a)) content of
          Inl x \<Rightarrow> (downloadM3u8_catch m a x, [])
        | Inr st \<Rightarrow>
            segmentLoop (task_update a (\<lambda>t. t\<lparr>totalSize := length (tsUrls st)\<rparr>) m) a c st 0 [])"
  by (auto simp: parseM3u8_def parsePlaylist_def keyLoop_keyScan resume_playlist_catch
      segmentsPhase_def Let_def split: sum.splits)

text \<open>
  C4. A playlist text is split into its lines at the line feeds. With the task's
  address parsed to an absolute base address, and the task resumed until it waits
  for no key any more: if a key download fails, the run ends in the error state with
  that download's exception; otherwise the N non-comment, non-blank lines give N
  segment addresses, one per such line in the order of the lines, each absolute, and
  the first segment is requested with the total size N, or, with N = 0, the run ends
  in the error state with the no-segments error and nothing is written.
\<close>

theorem media_playlist_segments:
  assumes parsed: "URL_new e (url (heap m ! a)) = Inr u"
    and scheme: "protocol u = ''http:'' \<or> protocol u = ''https:''"
    and abs: "startsWith (href u) (protocol u @ ''//'')"
    and a: "a < length (heap m)"
    and ls: "ls = split_str (CHR 0x0A) content"
    and base: "base = substring0 (href u) (lastIndexOf (href u) CHR ''/'' + 1)"
    and run: "run = (resume_playlist e ^^ length ls) (parseM3u8 e m a c content)"
  shows "join_str (CHR 0x0A) ls = content
       \<and> list_all (\<lambda>l. CHR 0x0A \<notin> set l) ls
       \<and> (case keyScan e
                  \<lparr>lines = ls, m3u8Url = u, baseUrl = base, aesKey = None, aesIV = None,
                   aesMethod = None, tsUrls = []\<rparr> ls of
            Inl x \<Rightarrow>
              parsePlaylist e (url (heap m ! a)) content = Inl x
              \<and> run = (downloadM3u8_catch m a x, [])
              \<and> status (heap (fst run) ! a) = Error
              \<and> error (heap (fst run) ! a) = Some x
              \<and> disk (fst run) = disk m
          | Inr st1 \<Rightarrow>
              if filter isSegmentLine ls = []
              then parsePlaylist e (url (heap m ! a)) content = Inl NoSegments
                 \<and> run = (downloadM3u8_catch m a NoSegments, [])
                 \<and> status (heap (fst run) ! a) = Error
                 \<and> error (heap (fst run) ! a) = Some NoSegments
                 \<and> disk (fst run) = disk m
              else (\<exists>st. parsePlaylist e (url (heap m ! a)) content = Inr st
                      \<and> st = st1\<lparr>tsUrls := map (\<lambda>l. resolveTsUrl u base (trim l))
                                               (filter isSegmentLine ls)\<rparr>
                      \<and> lines st = ls
                      \<and> length (tsUrls st) = length (filter isSegmentLine ls)
                      \<and> list_all isAbsoluteUrl (tsUrls st)
                      \<and> run = (if controllers m ! c
                               then (downloadM3u8_catch
                                       (task_update a
                                          (\<lambda>t. t\<lparr>totalSize := length (filter isSegmentLine ls)\<rparr>) m)
                                       a Cancelled, [])
                               else (task_update a
                                       (\<lambda>t. t\<lparr>totalSize := length (filter isSegmentLine ls)\<rparr>) m,
                                     [M3u8_segment a c st 0 []]))))"
proof -
  let ?st0 = "\<lparr>lines = ls, m3u8Url = u, baseUrl = base, aesKey = None, aesIV = None,
               aesMethod = None, tsUrls = []\<rparr>"
  let ?urls = "map (\<lambda>l. resolveTsUrl u base (trim l)) (filter isSegmentLine ls)"
  have j: "join_str (CHR 0x0A) ls = content" unfolding ls by (rule join_split_str)
  have p: "list_all (\<lambda>l. CHR 0x0A \<notin> set l) ls" unfolding ls by (rule split_str_pieces)
  have r: "run = (case parsePlaylist e (url (heap m ! a)) content of
                    Inl x \<Rightarrow> (downloadM3u8_catch m a x, [])
                  | Inr st \<Rightarrow>
                      segmentLoop
                        (task_update a (\<lambda>t. t\<lparr>totalSize := length (tsUrls st)\<rparr>) m) a c st 0 [])"
    unfolding run ls by (rule parseM3u8_parsePlaylist) simp
  have pp: "parsePlaylist e (url (heap m ! a)) content
      = (case keyScan e ?st0 ls of
           Inl x \<Rightarrow> Inl x
         | Inr st \<Rightarrow>
             (let urls = parseTsUrls (m3u8Url st) (baseUrl st) [] (lines st) in
              if length urls = 0 then Inl NoSegments else Inr (st\<lparr>tsUrls := urls\<rparr>)))"
    by (simp add: parsePlaylist_def parsed ls base)
  have k: "case keyScan e ?st0 ls of
            Inl x \<Rightarrow>
              parsePlaylist e (url (heap m ! a)) content = Inl x
              \<and> run = (downloadM3u8_catch m a x, [])
              \<and> status (heap (fst run) ! a) = Error
              \<and> error (heap (fst run) ! a) = Some x
              \<and> disk (fst run) = disk m
          | Inr st1 \<Rightarrow>
              if filter isSegmentLine ls = []
              then parsePlaylist e (url (heap m ! a)) content = Inl NoSegments
                 \<and> run = (downloadM3u8_catch m a NoSegments, [])
                 \<and> status (heap (fst run) ! a) = Error
                 \<and> error (heap (fst run) ! a) = Some NoSegments
                 \<and> disk (fst run) = disk m
              else (\<exists>st. parsePlaylist e (url (heap m ! a)) content = Inr st
                      \<and> st = st1\<lparr>tsUrls := ?urls\<rparr>
                      \<and> lines st = ls
                      \<and> length (tsUrls st) = length (filter isSegmentLine ls)
                      \<and> list_all isAbsoluteUrl (tsUrls st)
                      \<and> run = (if controllers m ! c
                               then (downloadM3u8_catch
                                       (task_update a
                                          (\<lambda>t. t\<lparr>totalSize := length (filter isSegmentLine ls)\<rparr>) m)
                                       a Cancelled, [])
                               else (task_update a
                                       (\<lambda>t. t\<lparr>totalSize := length (filter isSegmentLine ls)\<rparr>) m,
                                     [M3u8_segment a c st 0 []])))"
  proof (cases "keyScan e ?st0 ls")
    case (Inl x)
    have "parsePlaylist e (url (heap m ! a)) content = Inl x" by (simp add: pp Inl)
    moreover from this have "run = (downloadM3u8_catch m a x, [])" by (simp add: r)
    ultimately show ?thesis using catch_sets_error [OF a, of x] by (simp add: Inl)
  next
    case (Inr st1)
    have f: "lines st1 = ls" "m3u8Url st1 = u" "baseUrl st1 = base"
      using keyScan_fields [OF Inr] by simp_all
    have urls: "parseTsUrls (m3u8Url st1) (baseUrl st1) [] (lines st1) = ?urls"
      by (simp add: f parseTsUrls_eq)
    show ?thesis
    proof (cases "filter isSegmentLine ls = []")
      case True
      have "parsePlaylist e (url (heap m ! a)) content = Inl NoSegments"
        by (simp add: pp Inr urls True Let_def)
      moreover from this have "run = (downloadM3u8_catch m a NoSegments, [])" by (simp add: r)
      ultimately show ?thesis
        using catch_sets_error [OF a, of NoSegments] by (simp add: Inr True)
    next
      case False
      let ?st = "st1\<lparr>tsUrls := ?urls\<rparr>"
      have 1: "parsePlaylist e (url (heap m ! a)) content = Inr ?st"
        using False by (simp add: pp Inr urls Let_def)
      have 2: "lines ?st = ls" by (simp add: f)
      have 3: "length (tsUrls ?st) = length (filter isSegmentLine ls)" by simp
      have "list_all isAbsoluteUrl ?urls"
        using resolveTsUrl_absolute [OF scheme abs] by (simp add: base list_all_iff)
      then have 4: "list_all isAbsoluteUrl (tsUrls ?st)" by simp
      have 5: "run = (if controllers m ! c
                      then (downloadM3u8_catch
                                       (task_update a
                                          (\<lambda>t. t\<lparr>totalSize := length (filter isSegmentLine ls)\<rparr>) m)
                                       a Cancelled, [])
                      else (task_update a
                              (\<lambda>t. t\<lparr>totalSize := length (filter isSegmentLine ls)\<rparr>) m,
                            [M3u8_segment a c ?st 0 []]))"
        using False
      proof -
        have "controllers (task_update a f m) = controllers m" for f
          by (simp add: task_update_def)
        then show ?thesis using False by (simp add: r 1 segmentLoop_def)
      qed
      from 1 2 3 4 5 have "\<exists>st. parsePlaylist e (url (heap m ! a)) content = Inr st
                      \<and> st = st1\<lparr>tsUrls := ?urls\<rparr>
                      \<and> lines st = ls
                      \<and> length (tsUrls st) = length (filter isSegmentLine ls)
                      \<and> list_all isAbsoluteUrl (tsUrls st)
                      \<and> run = (if controllers m ! c
                               then (downloadM3u8_catch
                                       (task_update a
                                          (\<lambda>t. t\<lparr>totalSize := length (filter isSegmentLine ls)\<rparr>) m)
                                       a Cancelled, [])
                               else (task_update a
                                       (\<lambda>t. t\<lparr>totalSize := length (filter isSegmentLine ls)\<rparr>) m,
                                     [M3u8_segment a c st 0 []]))"
        by blast
      then show ?thesis using False by (simp only: Inr sum.case if_False)
    qed
  qed
  from j p k show ?thesis by (intro conjI)
qed

theorem media_playlist_segments_witness:
  "split_str (CHR 0x0A) encrypted_text
     = [''#EXTM3U'',
        ''#EXT-X-KEY:METHOD=AES-128,URI='' @ [CHR 0x22] @ ''k.key'' @ [CHR 0x22],
        ''s0.ts'', [], '' /v/s1.ts '']
   \<and> filter isSegmentLine (split_str (CHR 0x0A) encrypted_text) = [''s0.ts'', '' /v/s1.ts '']
   \<and> (\<exists>st. parsePlaylist example_env ''http://h/enc.m3u8'' encrypted_text = Inr st
          \<and> tsUrls st = [''http://h/s0.ts'', ''http://h/v/s1.ts'']
          \<and> aesMethod st = Some ''AES-128''
          \<and> aesKey st = Some [1, 2, 3, 4, 5, 6, 7, 8, 9, 10, 11, 12, 13, 14, 15, 16]
          \<and> list_all isAbsoluteUrl (tsUrls st)
          \<and> (resume_playlist example_env ^^ 5)
               (parseM3u8 example_env (fst encrypted_example) 0 0 encrypted_text)
             = (task_update 0 (\<lambda>t. t\<lparr>totalSize := 2\<rparr>) (fst encrypted_example),
                [M3u8_segment 0 0 st 0 []]))"
proof -
  let ?u = "\<lparr>protocol = ''http:'', host = ''h'', href = ''http://h/enc.m3u8''\<rparr>"
  let ?ls = "split_str (CHR 0x0A) encrypted_text"
  have url: "url (heap (fst encrypted_example) ! 0) = ''http://h/enc.m3u8''" by code_simp
  have h1: "URL_new example_env (url (heap (fst encrypted_example) ! 0)) = Inr ?u"
    by code_simp
  have h2: "protocol ?u = ''http:'' \<or> protocol ?u = ''https:''" by simp
  have h3: "startsWith (href ?u) (protocol ?u @ ''//'')" by code_simp
  have h4: "0 < length (heap (fst encrypted_example))" by code_simp
  have v1: "?ls = [''#EXTM3U'',
        ''#EXT-X-KEY:METHOD=AES-128,URI='' @ [CHR 0x22] @ ''k.key'' @ [CHR 0x22],
        ''s0.ts'', [], '' /v/s1.ts '']"
    by code_simp
  have v2: "filter isSegmentLine ?ls = [''s0.ts'', '' /v/s1.ts '']" by code_simp
  have v3: "length ?ls = 5" by code_simp
  have v4: "\<not> controllers (fst encrypted_example) ! 0" by code_simp
  have v5: "filter isSegmentLine ?ls \<noteq> []" by (simp add: v2)
  have v6: "length (filter isSegmentLine ?ls) = 2" by (simp add: v2)
  let ?st1 = "\<lparr>lines = ?ls, m3u8Url = ?u, baseUrl = ''http://h/'',
                aesKey = Some [1, 2, 3, 4, 5, 6, 7, 8, 9, 10, 11, 12, 13, 14, 15, 16],
                aesIV = None, aesMethod = Some ''AES-128'', tsUrls = []\<rparr>"
  have v7: "keyScan example_env
      \<lparr>lines = ?ls, m3u8Url = ?u,
       baseUrl = substring0 (href ?u) (lastIndexOf (href ?u) CHR ''/'' + 1),
       aesKey = None, aesIV = None, aesMethod = None, tsUrls = []\<rparr> ?ls = Inr ?st1"
    by code_simp
  have v8: "map (\<lambda>l. resolveTsUrl ?u (substring0 (href ?u) (lastIndexOf (href ?u) CHR ''/'' + 1))
                      (trim l)) [''s0.ts'', '' /v/s1.ts '']
             = [''http://h/s0.ts'', ''http://h/v/s1.ts'']"
    by code_simp
  note r = media_playlist_segments [where c = 0 and content = encrypted_text,
      OF h1 h2 h3 h4 refl refl refl,
      THEN conjunct2, THEN conjunct2, unfolded v7 sum.case if_not_P [OF v5]]
  from r obtain st where s: "parsePlaylist example_env (url (heap (fst encrypted_example) ! 0))
        encrypted_text = Inr st"
      "st = ?st1\<lparr>tsUrls := map (\<lambda>l. resolveTsUrl ?u
                 (substring0 (href ?u) (lastIndexOf (href ?u) CHR ''/'' + 1)) (trim l))
                 (filter isSegmentLine ?ls)\<rparr>"
      "list_all isAbsoluteUrl (tsUrls st)"
      "(resume_playlist example_env ^^ length ?ls)
         (parseM3u8 example_env (fst encrypted_example) 0 0 encrypted_text)
       = (if controllers (fst encrypted_example) ! 0
          then (downloadM3u8_catch
                  (task_update 0
                     (\<lambda>t. t\<lparr>totalSize := length (filter isSegmentLine ?ls)\<rparr>)
                     (fst encrypted_example)) 0 Cancelled, [])
          else (task_update 0
                  (\<lambda>t. t\<lparr>totalSize := length (filter isSegmentLine ?ls)\<rparr>)
                  (fst encrypted_example),
                [M3u8_segment 0 0 st 0 []]))"
    by blast
  have t1: "parsePlaylist example_env ''http://h/enc.m3u8'' encrypted_text = Inr st"
    using s(1) unfolding url .
  have t2: "tsUrls st = [''http://h/s0.ts'', ''http://h/v/s1.ts'']"
    unfolding s(2) v2 v8 by simp
  have t4: "aesMethod st = Some ''AES-128''"
      "aesKey st = Some [1, 2, 3, 4, 5, 6, 7, 8, 9, 10, 11, 12, 13, 14, 15, 16]"
    unfolding s(2) by simp_all
  have t3: "(resume_playlist example_env ^^ 5)
               (parseM3u8 example_env (fst encrypted_example) 0 0 encrypted_text)
             = (task_update 0 (\<lambda>t. t\<lparr>totalSize := 2\<rparr>) (fst encrypted_example),
                [M3u8_segment 0 0 st 0 []])"
    using s(4) unfolding v3 v6 if_not_P [OF v4] .
  from t1 t2 t4 s(3) t3 have "\<exists>st. parsePlaylist example_env ''http://h/enc.m3u8'' encrypted_text = Inr st
          \<and> tsUrls st = [''http://h/s0.ts'', ''http://h/v/s1.ts'']
          \<and> aesMethod st = Some ''AES-128''
          \<and> aesKey st = Some [1, 2, 3, 4, 5, 6, 7, 8, 9, 10, 11, 12, 13, 14, 15, 16]
          \<and> list_all isAbsoluteUrl (tsUrls st)
          \<and> (resume_playlist example_env ^^ 5)
               (parseM3u8 example_env (fst encrypted_example) 0 0 encrypted_text)
             = (task_update 0 (\<lambda>t. t\<lparr>totalSize := 2\<rparr>) (fst encrypted_example),
                [M3u8_segment 0 0 st 0 []])"
    by blast
  with v1 v2 show ?thesis by (intro conjI)
qed

text \<open>C4 as stated fails for N = 0 when the playlist declares a key that cannot be
  downloaded: the task fails with the exception of the key download, HTTP 404, not with
  the no-segments error.\<close>

theorem key_failure_counterexample:
  "http_text example_env ''http://h/keyonly.m3u8'' = Response 200 keyonly_text
   \<and> filter isSegmentLine (split_str (CHR 0x0A) keyonly_text) = []
   \<and> snd keyonly_example = []
   \<and> status (heap (fst keyonly_example) ! 0) = Error
   \<and> error (heap (fst keyonly_example) ! 0) = Some (HttpError 404)
   \<and> error (heap (fst keyonly_example) ! 0) \<noteq> Some NoSegments"
proof -
  have 1: "http_text example_env ''http://h/keyonly.m3u8'' = Response 200 keyonly_text"
    by code_simp
  have 2: "filter isSegmentLine (split_str (CHR 0x0A) keyonly_text) = []" by code_simp
  have 3: "snd keyonly_example = []" by code_simp
  have 4: "status (heap (fst keyonly_example) ! 0) = Error" by code_simp
  have 5: "error (heap (fst keyonly_example) ! 0) = Some (HttpError 404)" by code_simp
  have 6: "error (heap (fst keyonly_example) ! 0) \<noteq> Some NoSegments" by (simp add: 5)
  from 1 2 3 4 5 6 show ?thesis by (intro conjI)
qed

section \<open>Segment decryption\<close>

declare blocks16.simps [simp del]

lemma blocks16_Nil: "blocks16 [] = []"
  by (simp add: blocks16.simps)

lemma blocks16_append:
  "length p = 16 \<Longrightarrow> blocks16 (p @ r) = p # blocks16 r"
  by (subst blocks16.simps) auto

lemma blocks16_concat:
  "list_all (\<lambda>b. length b = 16) cs \<Longrightarrow> blocks16 (concat cs) = cs"
  by (induction cs) (simp_all add: blocks16_Nil blocks16_append)

lemma blocks16_lengths:
  "length data mod 16 = 0 \<Longrightarrow> list_all (\<lambda>b. length b = 16) (blocks16 data)"
proof (induction data rule: blocks16.induct)
  case (1 data)
  show ?case
  proof (cases "data = []")
    case True
    then show ?thesis by (simp add: blocks16_Nil)
  next
    case False
    with "1.prems" have len: "16 \<le> length data"
      by (metis length_0_conv mod_less not_le_imp_less)
    then have "length (drop 16 data) mod 16 = 0"
      using "1.prems" by (simp add: le_mod_geq)
    with False "1.IH" have "list_all (\<lambda>b. length b = 16) (blocks16 (drop 16 data))" by simp
    moreover have "length (take 16 data) = 16" using len by simp
    ultimately show ?thesis using False by (subst blocks16.simps) simp
  qed
qed

lemma concat_blocks16: "concat (blocks16 data) = data"
proof (induction data rule: blocks16.induct)
  case (1 data)
  then show ?case by (subst blocks16.simps) simp
qed

lemma xor_bytes_cancel: "length a = length b \<Longrightarrow> xor_bytes (xor_bytes a b) b = a"
proof (induction a arbitrary: b)
  case Nil
  then show ?case by (simp add: xor_bytes_def)
next
  case (Cons x a)
  then obtain y b' where b: "b = y # b'" by (cases b) auto
  with Cons.prems have "length a = length b'" by simp
  then have "xor_bytes (xor_bytes a b') b' = a" by (rule Cons.IH)
  then show ?case by (simp add: b xor_bytes_def xor.assoc)
qed

lemma length_xor_bytes: "length (xor_bytes a b) = min (length a) (length b)"
  by (simp add: xor_bytes_def)

lemma cbc_roundtrip:
  assumes inv: "\<And>b. length b = 16 \<Longrightarrow> length (d b) = 16 \<and> f (d b) = b"
  shows "list_all (\<lambda>b. length b = 16) cs \<Longrightarrow> length iv = 16 \<Longrightarrow>
         cbc_encrypt f iv (blocks16 (cbc_decrypt d iv cs)) = concat cs"
proof (induction cs arbitrary: iv)
  case Nil
  then show ?case by (simp add: blocks16_Nil)
next
  case (Cons c cs)
  then have c: "length c = 16" and cs: "list_all (\<lambda>b. length b = 16) cs" by simp_all
  have dc: "length (d c) = 16" "f (d c) = c" using inv [OF c] by simp_all
  have p: "length (xor_bytes (d c) iv) = 16"
    using dc Cons.prems by (simp add: length_xor_bytes)
  have cancel: "xor_bytes (xor_bytes (d c) iv) iv = d c"
    using dc Cons.prems by (simp add: xor_bytes_cancel)
  have "cbc_encrypt f iv (blocks16 (cbc_decrypt d iv (c # cs)))
      = cbc_encrypt f iv (xor_bytes (d c) iv # blocks16 (cbc_decrypt d c cs))"
    using p by (simp add: blocks16_append)
  also have "\<dots> = c @ cbc_encrypt f c (blocks16 (cbc_decrypt d c cs))"
    by (simp add: cancel dc)
  also have "\<dots> = c @ concat cs"
    using Cons.IH [OF cs c] by simp
  finally show ?case by simp
qed

lemma big_endian_value:
  assumes "i < 2 ^ 32"
  shows "unat (of_nat (i div 2 ^ 24) :: byte) * 2 ^ 24
       + unat (of_nat (i div 2 ^ 16) :: byte) * 2 ^ 16
       + unat (of_nat (i div 2 ^ 8) :: byte) * 2 ^ 8
       + unat (of_nat i :: byte) = i"
proof -
  define q1 where "q1 = i div 256"
  define q2 where "q2 = q1 div 256"
  define q3 where "q3 = q2 div 256"
  have d8: "i div 2 ^ 8 = q1" by (simp add: q1_def)
  have d16: "i div 2 ^ 16 = q2"
    using div_mult2_eq [of i 256 256] by (simp add: q1_def q2_def)
  have d24: "i div 2 ^ 24 = q3"
    using div_mult2_eq [of i 65536 256] d16 by (simp add: q3_def)
  have "q3 < 256" using assms unfolding d24 [symmetric] by simp
  then have m3: "q3 mod 256 = q3" by simp
  have e1: "i = q1 * 256 + i mod 256" by (simp add: q1_def)
  have e2: "q1 = q2 * 256 + q1 mod 256" by (simp add: q2_def)
  have e3: "q2 = q3 * 256 + q2 mod 256" by (simp add: q3_def)
  have "q3 * 16777216 + q2 mod 256 * 65536 + q1 mod 256 * 256 + i mod 256 = i"
    using e1 e2 e3 by linarith
  then show ?thesis
    unfolding d8 d16 d24 by (simp add: unat_of_nat m3)
qed

lemma default_iv:
  assumes "i < 2 ^ 32"
  shows "writeUInt32BE (Buffer_alloc 16) i 12
     = Inr (replicate 12 0
            @ [of_nat (i div 2 ^ 24), of_nat (i div 2 ^ 16), of_nat (i div 2 ^ 8), of_nat i])"
  using assms by (simp add: writeUInt32BE_def Buffer_alloc_def)

text \<open>
  C5. With no declared IV, a segment of whole blocks at index \<open>i\<close> is deciphered with
  the 16-byte IV of twelve zero bytes followed by \<open>i\<close> in big-endian; with a 16-byte
  key the result is the CBC decryption under that IV, and encrypting it again under the
  same key and IV gives back the ciphertext.
\<close>

theorem default_iv_roundtrip:
  assumes whole: "length data mod 16 = 0"
    and idx: "i < 2 ^ 32"
    and key: "length key = 16"
    and inv: "\<And>b. length b = 16 \<Longrightarrow> length (D key b) = 16 \<and> E key (D key b) = b"
    and iv: "iv = replicate 12 0
                  @ [of_nat (i div 2 ^ 24), of_nat (i div 2 ^ 16), of_nat (i div 2 ^ 8), of_nat i]"
  shows "decryptAES128_try decipher data key None i = decipher key iv data
       \<and> length iv = 16
       \<and> unat (iv ! 12) * 2 ^ 24 + unat (iv ! 13) * 2 ^ 16 + unat (iv ! 14) * 2 ^ 8
           + unat (iv ! 15) = i
       \<and> decryptAES128 (aes_128_cbc_decipher D) data key None i
           = Inr (cbc_decrypt (D key) iv (blocks16 data))
       \<and> aes_128_cbc_cipher E key iv (cbc_decrypt (D key) iv (blocks16 data)) = data"
proof -
  have t: "decryptAES128_try decipher data key None i = decipher key iv data" for decipher
    using whole default_iv [OF idx] by (simp add: decryptAES128_try_def iv)
  have len: "length iv = 16" by (simp add: iv)
  have be: "unat (iv ! 12) * 2 ^ 24 + unat (iv ! 13) * 2 ^ 16 + unat (iv ! 14) * 2 ^ 8
           + unat (iv ! 15) = i"
    using big_endian_value [OF idx] by (simp add: iv nth_append)
  have dec: "decryptAES128 (aes_128_cbc_decipher D) data key None i
           = Inr (cbc_decrypt (D key) iv (blocks16 data))"
    using whole key len by (simp add: decryptAES128_def t aes_128_cbc_decipher_def)
  have "cbc_encrypt (E key) iv (blocks16 (cbc_decrypt (D key) iv (blocks16 data)))
      = concat (blocks16 data)"
    using inv blocks16_lengths [OF whole] len by (rule cbc_roundtrip)
  then have rt: "aes_128_cbc_cipher E key iv (cbc_decrypt (D key) iv (blocks16 data)) = data"
    by (simp add: aes_128_cbc_cipher_def concat_blocks16)
  from t len be dec rt show ?thesis by blast
qed

theorem default_iv_roundtrip_witness:
  "decryptAES128 (aes_128_cbc_decipher xor_block) (replicate 16 7) (replicate 16 1) None 5
     = Inr (cbc_decrypt (xor_block (replicate 16 1)) (replicate 12 0 @ [0, 0, 0, 5])
              (blocks16 (replicate 16 7)))
   \<and> aes_128_cbc_cipher xor_block (replicate 16 1) (replicate 12 0 @ [0, 0, 0, 5])
       (cbc_decrypt (xor_block (replicate 16 1)) (replicate 12 0 @ [0, 0, 0, 5])
          (blocks16 (replicate 16 7)))
     = replicate 16 7"
proof -
  have h1: "length (replicate 16 (7 :: byte)) mod 16 = 0" by simp
  have h2: "(5 :: nat) < 2 ^ 32" by simp
  have h3: "length (replicate 16 (1 :: byte)) = 16" by simp
  have h4: "length (xor_block (replicate 16 1) b) = 16
      \<and> xor_block (replicate 16 1) (xor_block (replicate 16 1) b) = b"
    if "length b = 16" for b
    using that by (simp add: xor_block_def length_xor_bytes xor_bytes_cancel)
  have h5: "replicate 12 0 @ [0, 0, 0, 5]
      = replicate 12 0 @ [of_nat (5 div 2 ^ 24), of_nat (5 div 2 ^ 16), of_nat (5 div 2 ^ 8),
          of_nat 5 :: byte]"
    by simp
  note r = default_iv_roundtrip [of "replicate 16 7" 5 "replicate 16 1" xor_block xor_block
      "replicate 12 0 @ [0, 0, 0, 5]", OF h1 h2 h3 h4 h5]
  from r [THEN conjunct2, THEN conjunct2, THEN conjunct2] show ?thesis .
qed

text \<open>
  C6. \<open>decryptAES128\<close> always returns: the input itself when its length is not a
  multiple of 16 and when anything inside the \<open>try\<close> block throws, and what the \<open>try\<close>
  block returns otherwise.
\<close>

theorem decryptAES128_total:
  "(\<exists>r. decryptAES128 decipher data key iv i = Inr r)
   \<and> (length data mod 16 \<noteq> 0 \<longrightarrow> decryptAES128 decipher data key iv i = Inr data)
   \<and> (\<forall>x. decryptAES128_try decipher data key iv i = Inl x
          \<longrightarrow> decryptAES128 decipher data key iv i = Inr data)
   \<and> (\<forall>p. decryptAES128_try decipher data key iv i = Inr p
          \<longrightarrow> decryptAES128 decipher data key iv i = Inr p)"
  by (auto simp: decryptAES128_def decryptAES128_try_def split: sum.splits)

theorem decryptAES128_total_witness:
  "length [1, 2, 3 :: byte] mod 16 \<noteq> 0
   \<and> decryptAES128 (aes_128_cbc_decipher xor_block) [1, 2, 3] [] None 0 = Inr [1, 2, 3]
   \<and> decryptAES128_try (aes_128_cbc_decipher xor_block) (replicate 16 0) [] None 0
     = Inl CipherError
   \<and> decryptAES128 (aes_128_cbc_decipher xor_block) (replicate 16 0) [] None 0
     = Inr (replicate 16 0)"
proof -
  have h1: "length [1, 2, 3 :: byte] mod 16 \<noteq> 0" by simp
  have h2: "decryptAES128_try (aes_128_cbc_decipher xor_block) (replicate 16 0) [] None 0
     = Inl CipherError"
    by (simp add: decryptAES128_try_def writeUInt32BE_def Buffer_alloc_def
        aes_128_cbc_decipher_def)
  from decryptAES128_total [of "aes_128_cbc_decipher xor_block" "[1, 2, 3]" "[]" None 0] h1
  have r1: "decryptAES128 (aes_128_cbc_decipher xor_block) [1, 2, 3] [] None 0 = Inr [1, 2, 3]"
    by blast
  from decryptAES128_total [of "aes_128_cbc_decipher xor_block" "replicate 16 0" "[]" None 0] h2
  have r2: "decryptAES128 (aes_128_cbc_decipher xor_block) (replicate 16 0) [] None 0
     = Inr (replicate 16 0)"
    by blast
  from h1 r1 h2 r2 show ?thesis by (intro conjI)
qed

section \<open>Retrying a task\<close>

lemma task_update_same_url:
  "a < length (heap m) \<Longrightarrow> task_update a (\<lambda>t. t\<lparr>url := url (heap m ! a)\<rparr>) m = m"
  by (simp add: task_update_def)

lemma heap_task_update_nth:
  "a < length (heap m) \<Longrightarrow> heap (task_update a f m) ! a = f (heap m ! a)"
  by (simp add: task_update_def)

lemma controllers_task_update [simp]: "controllers (task_update a f m) = controllers m"
  by (simp add: task_update_def)

lemma parsePlaylist_nonempty: "parsePlaylist e u content = Inr st \<Longrightarrow> tsUrls st \<noteq> []"
  by (auto simp: parsePlaylist_def Let_def split: sum.splits if_splits)

lemma fetch_parsePlaylist:
  assumes a: "a < length (heap m)"
    and f: "fetchMediaPlaylist e (url (heap m ! a)) = Inr (mu, content)"
    and n: "length (split_str (CHR 0x0A) content) \<le> n"
  shows "(resume_playlist e ^^ (n + 2)) (m, [M3u8_fetch a c (url (heap m ! a))])
     = (case parsePlaylist e mu content of
          Inl x \<Rightarrow> (downloadM3u8_catch (task_update a (\<lambda>t. t\<lparr>url := mu\<rparr>) m) a x, [])
        | Inr st \<Rightarrow>
            segmentLoop
              (task_update a (\<lambda>t. t\<lparr>totalSize := length (tsUrls st)\<rparr>)
                 (task_update a (\<lambda>t. t\<lparr>url := mu\<rparr>) m)) a c st 0 [])"
proof -
  let ?u = "url (heap m ! a)"
  let ?m = "task_update a (\<lambda>t. t\<lparr>url := mu\<rparr>) m"
  have mu: "url (heap ?m ! a) = mu" using a by (simp add: heap_task_update_nth)
  obtain first where first: "fetchContent e ?u = Inr first"
    using f by (auto simp: fetchMediaPlaylist_def split: sum.splits)
  have s2: "(resume_playlist e ^^ (n + 2)) s = (resume_playlist e ^^ (n + 1)) (resume_playlist e s)"
    for s by (simp add: funpow_swap1)
  have s1: "(resume_playlist e ^^ (n + 1)) s = (resume_playlist e ^^ n) (resume_playlist e s)"
    for s by (simp add: funpow_swap1)
  show ?thesis
  proof (cases "includes_str first ''#EXT-X-STREAM-INF''")
    case False
    then have eq: "mu = ?u" "content = first"
      using f first by (simp_all add: fetchMediaPlaylist_def)
    have m: "?m = m" unfolding eq by (rule task_update_same_url [OF a])
    have "resume_playlist e (m, [M3u8_fetch a c ?u]) = parseM3u8 e m a c content"
      using False first by (simp add: resume_playlist_step eq)
    then show ?thesis
      unfolding s2 m using parseM3u8_parsePlaylist [of content "n + 1" e m a c] n
      by (simp add: eq)
  next
    case True
    then obtain r where r: "findMediaPlaylistUrl (split_str (CHR 0x0A) first) = Some r"
        "resolveMediaPlaylistUrl e ?u r = Inr mu" "fetchContent e mu = Inr content"
      using f first by (auto simp: fetchMediaPlaylist_def split: option.splits sum.splits)
    have 1: "resume_playlist e (m, [M3u8_fetch a c ?u]) = (m, [M3u8_fetchMedia a c mu])"
      using True first r by (simp add: resume_playlist_step)
    have 2: "resume_playlist e (m, [M3u8_fetchMedia a c mu]) = parseM3u8 e ?m a c content"
      using r by (simp add: resume_playlist_step)
    show ?thesis
      unfolding s2 1 s1 2 using parseM3u8_parsePlaylist [of content n e ?m a c] n
      by (simp add: mu)
  qed
qed

text \<open>
  C9. For a task of the store: \<open>retryTask\<close> throws while the task is downloading.
  Otherwise it leaves the task pending with progress 0, downloaded size 0 and no
  error, and its continuation starts a new run: \<open>startDownload\<close> sets the task to
  downloading and enters the download path of the task's address with a new
  controller. On the HLS path the playlist is requested again; when the playlist phase
  succeeds, the run requests the segment of index 0 with no segment held, with
  progress 0, downloaded size 0 and the number of segments as total size, and when
  that segment arrives the downloaded size is 1. On the direct path the file is
  requested again; on a response with status 200 the file is created empty and the
  body is read from its first chunk with 0 bytes counted.
\<close>

theorem retryTask_restarts:
  assumes t: "map_of (tasks m) taskId = Some a"
    and a: "a < length (heap m)"
    and c: "c = length (controllers m)"
    and u: "u = url (heap m ! a)"
    and fp: "fp = path_join (downloadDir m) (fileName (heap m ! a))"
  shows "if status (heap m ! a) = Downloading
         then retryTask m taskId = Inl TaskIsDownloading
         else (\<exists>m1 m2 m3.
                 retryTask m taskId = Inr (m1, [RetryTask_saved taskId])
               \<and> status (heap m1 ! a) = Pending
               \<and> progress (heap m1 ! a) = 0
               \<and> downloadedSize (heap m1 ! a) = 0
               \<and> error (heap m1 ! a) = None
               \<and> step e m1 (RetryTask_saved taskId) = (m2, [StartDownload_saved a])
               \<and> status (heap m2 ! a) = Downloading
               \<and> progress (heap m2 ! a) = 0
               \<and> downloadedSize (heap m2 ! a) = 0
               \<and> (if choosePath u = HLS
                  then step e m2 (StartDownload_saved a) = (m3, [M3u8_fetch a c u])
                     \<and> (\<forall>mu content st.
                           fetchMediaPlaylist e u = Inr (mu, content)
                           \<and> parsePlaylist e mu content = Inr st
                           \<longrightarrow> (\<exists>m4.
                                  (resume_playlist e ^^ (length (split_str (CHR 0x0A) content) + 2))
                                     (m3, [M3u8_fetch a c u])
                                   = (m4, [M3u8_segment a c st 0 []])
                                \<and> tsUrls st \<noteq> []
                                \<and> status (heap m4 ! a) = Downloading
                                \<and> progress (heap m4 ! a) = 0
                                \<and> downloadedSize (heap m4 ! a) = 0
                                \<and> totalSize (heap m4 ! a) = length (tsUrls st)
                                \<and> (\<forall>buf plain.
                                      downloadSegmentToBuffer e (tsUrls st ! 0) = Inr buf
                                      \<and> (case aesKey st of
                                            Some k \<Rightarrow>
                                              if aesMethod st = Some ''AES-128''
                                              then decryptAES128 (createDecipheriv e) buf k
                                                     (aesIV st) 0
                                              else Inr buf
                                          | None \<Rightarrow> Inr buf) = Inr plain
                                      \<longrightarrow> (\<exists>m5.
                                             step e m4 (M3u8_segment a c st 0 [])
                                               = (m5, [M3u8_saved a c st 0 [plain]])
                                           \<and> downloadedSize (heap m5 ! a) = 1
                                           \<and> progress (heap m5 ! a)
                                               = roundPercent 1 (length (tsUrls st))))))
                  else step e m2 (StartDownload_saved a) = (m3, [File_request a c fp u])
                     \<and> (\<forall>len chunks.
                           http_file e u = Response 200 (len, chunks)
                           \<longrightarrow> (\<exists>m4.
                                  step e m3 (File_request a c fp u)
                                   = (m4, [File_data a c fp (case len of Some n \<Rightarrow> n | None \<Rightarrow> 0)
                                             0 chunks])
                                \<and> map_of (disk m4) fp = Some []
                                \<and> status (heap m4 ! a) = Downloading
                                \<and> progress (heap m4 ! a) = 0
                                \<and> downloadedSize (heap m4 ! a) = 0))))"
proof (cases "status (heap m ! a) = Downloading")
  case True
  then show ?thesis using t by (simp add: retryTask_def)
next
  case False
  define m1 where "m1 = saveMetadata
               (task_update a
                  (\<lambda>t. t\<lparr>status := Pending, progress := 0, downloadedSize := 0,
                         error := None\<rparr>) m)"
  define m2 where "m2 = saveMetadata (task_update a (\<lambda>t. t\<lparr>status := Downloading\<rparr>) m1)"
  define m3 where "m3 = m2\<lparr>controllers := controllers m2 @ [False],
        activeDownloads :=
          AList.update (id_task (heap m2 ! a)) (length (controllers m2)) (activeDownloads m2)\<rparr>"
  have r: "retryTask m taskId = Inr (m1, [RetryTask_saved taskId])"
    using False t by (simp add: retryTask_def m1_def)
  have f1: "status (heap m1 ! a) = Pending" "progress (heap m1 ! a) = 0"
      "downloadedSize (heap m1 ! a) = 0" "error (heap m1 ! a) = None"
    using a by (simp_all add: m1_def saveMetadata_def task_update_def)
  have k1: "map_of (tasks m1) taskId = Some a" "a < length (heap m1)"
      "controllers m1 = controllers m" "url (heap m1 ! a) = u" "downloadDir m1 = downloadDir m"
      "fileName (heap m1 ! a) = fileName (heap m ! a)"
    using t a by (simp_all add: m1_def saveMetadata_def task_update_def u)
  have s1: "step e m1 (RetryTask_saved taskId) = (m2, [StartDownload_saved a])"
    using k1(1) by (simp add: startDownload_def m2_def)
  have f2: "status (heap m2 ! a) = Downloading" "progress (heap m2 ! a) = 0"
      "downloadedSize (heap m2 ! a) = 0"
    using k1(2) f1 by (simp_all add: m2_def saveMetadata_def task_update_def)
  have k2: "a < length (heap m2)" "controllers m2 = controllers m" "url (heap m2 ! a) = u"
      "downloadDir m2 = downloadDir m" "fileName (heap m2 ! a) = fileName (heap m ! a)"
    using k1 by (simp_all add: m2_def saveMetadata_def task_update_def)
  have k3: "a < length (heap m3)" "controllers m3 = controllers m @ [False]"
      "url (heap m3 ! a) = u" "heap m3 = heap m2"
    using k2 by (simp_all add: m3_def)
  have nc: "\<not> controllers m3 ! c" by (simp add: k3(2) c)
  have branch: "if choosePath u = HLS
                  then step e m2 (StartDownload_saved a) = (m3, [M3u8_fetch a c u])
                     \<and> (\<forall>mu content st.
                           fetchMediaPlaylist e u = Inr (mu, content)
                           \<and> parsePlaylist e mu content = Inr st
                           \<longrightarrow> (\<exists>m4.
                                  (resume_playlist e ^^ (length (split_str (CHR 0x0A) content) + 2))
                                     (m3, [M3u8_fetch a c u])
                                   = (m4, [M3u8_segment a c st 0 []])
                                \<and> tsUrls st \<noteq> []
                                \<and> status (heap m4 ! a) = Downloading
                                \<and> progress (heap m4 ! a) = 0
                                \<and> downloadedSize (heap m4 ! a) = 0
                                \<and> totalSize (heap m4 ! a) = length (tsUrls st)
                                \<and> (\<forall>buf plain.
                                      downloadSegmentToBuffer e (tsUrls st ! 0) = Inr buf
                                      \<and> (case aesKey st of
                                            Some k \<Rightarrow>
                                              if aesMethod st = Some ''AES-128''
                                              then decryptAES128 (createDecipheriv e) buf k
                                                     (aesIV st) 0
                                              else Inr buf
                                          | None \<Rightarrow> Inr buf) = Inr plain
                                      \<longrightarrow> (\<exists>m5.
                                             step e m4 (M3u8_segment a c st 0 [])
                                               = (m5, [M3u8_saved a c st 0 [plain]])
                                           \<and> downloadedSize (heap m5 ! a) = 1
                                           \<and> progress (heap m5 ! a)
                                               = roundPercent 1 (length (tsUrls st))))))
                  else step e m2 (StartDownload_saved a) = (m3, [File_request a c fp u])
                     \<and> (\<forall>len chunks.
                           http_file e u = Response 200 (len, chunks)
                           \<longrightarrow> (\<exists>m4.
                                  step e m3 (File_request a c fp u)
                                   = (m4, [File_data a c fp (case len of Some n \<Rightarrow> n | None \<Rightarrow> 0)
                                             0 chunks])
                                \<and> map_of (disk m4) fp = Some []
                                \<and> status (heap m4 ! a) = Downloading
                                \<and> progress (heap m4 ! a) = 0
                                \<and> downloadedSize (heap m4 ! a) = 0))"
  proof (cases "choosePath u = HLS")
    case hls: True
    have s2: "step e m2 (StartDownload_saved a) = (m3, [M3u8_fetch a c u])"
      using hls by (simp add: k2 downloadM3u8_def m3_def c)
    have run: "\<exists>m4.
                (resume_playlist e ^^ (length (split_str (CHR 0x0A) content) + 2))
                   (m3, [M3u8_fetch a c u])
                 = (m4, [M3u8_segment a c st 0 []])
              \<and> tsUrls st \<noteq> []
              \<and> status (heap m4 ! a) = Downloading
              \<and> progress (heap m4 ! a) = 0
              \<and> downloadedSize (heap m4 ! a) = 0
              \<and> totalSize (heap m4 ! a) = length (tsUrls st)
              \<and> (\<forall>buf plain.
                    downloadSegmentToBuffer e (tsUrls st ! 0) = Inr buf
                    \<and> (case aesKey st of
                          Some k \<Rightarrow>
                            if aesMethod st = Some ''AES-128''
                            then decryptAES128 (createDecipheriv e) buf k (aesIV st) 0
                            else Inr buf
                        | None \<Rightarrow> Inr buf) = Inr plain
                    \<longrightarrow> (\<exists>m5.
                           step e m4 (M3u8_segment a c st 0 [])
                             = (m5, [M3u8_saved a c st 0 [plain]])
                         \<and> downloadedSize (heap m5 ! a) = 1
                         \<and> progress (heap m5 ! a) = roundPercent 1 (length (tsUrls st))))"
      if fm: "fetchMediaPlaylist e u = Inr (mu, content)"
        and pp: "parsePlaylist e mu content = Inr st" for mu content st
    proof -
      define m4 where "m4 = task_update a (\<lambda>t. t\<lparr>totalSize := length (tsUrls st)\<rparr>)
                              (task_update a (\<lambda>t. t\<lparr>url := mu\<rparr>) m3)"
      have ne: "tsUrls st \<noteq> []" using pp by (rule parsePlaylist_nonempty)
      have fm': "fetchMediaPlaylist e (url (heap m3 ! a)) = Inr (mu, content)"
        using fm by (simp add: k3(3))
      have "(resume_playlist e ^^ (length (split_str (CHR 0x0A) content) + 2))
               (m3, [M3u8_fetch a c (url (heap m3 ! a))])
            = segmentLoop m4 a c st 0 []"
        using fetch_parsePlaylist [OF k3(1) fm' order_refl, of c] by (simp add: pp m4_def)
      moreover have "segmentLoop m4 a c st 0 [] = (m4, [M3u8_segment a c st 0 []])"
        using ne nc by (simp add: segmentLoop_def m4_def)
      ultimately have 1: "(resume_playlist e ^^ (length (split_str (CHR 0x0A) content) + 2))
               (m3, [M3u8_fetch a c u]) = (m4, [M3u8_segment a c st 0 []])"
        by (simp add: k3(3))
      have h4: "heap m4 ! a = (heap m2 ! a)\<lparr>url := mu, totalSize := length (tsUrls st)\<rparr>"
        using k3(1) by (simp add: m4_def task_update_def k3(4))
      have 2: "status (heap m4 ! a) = Downloading" "progress (heap m4 ! a) = 0"
          "downloadedSize (heap m4 ! a) = 0" "totalSize (heap m4 ! a) = length (tsUrls st)"
        by (simp_all add: h4 f2)
      have l4: "a < length (heap m4)" using k3(1) by (simp add: m4_def task_update_def)
      have 3: "\<exists>m5. step e m4 (M3u8_segment a c st 0 []) = (m5, [M3u8_saved a c st 0 [plain]])
                  \<and> downloadedSize (heap m5 ! a) = 1
                  \<and> progress (heap m5 ! a) = roundPercent 1 (length (tsUrls st))"
        if d: "downloadSegmentToBuffer e (tsUrls st ! 0) = Inr buf"
          and p: "(case aesKey st of
                     Some k \<Rightarrow>
                       if aesMethod st = Some ''AES-128''
                       then decryptAES128 (createDecipheriv e) buf k (aesIV st) 0
                       else Inr buf
                   | None \<Rightarrow> Inr buf) = Inr plain" for buf plain
      proof -
        let ?m5 = "saveMetadata
                  (task_update a
                     (\<lambda>t. t\<lparr>downloadedSize := 0 + 1,
                            progress := roundPercent (0 + 1) (length (tsUrls st))\<rparr>) m4)"
        have "step e m4 (M3u8_segment a c st 0 []) = (?m5, [M3u8_saved a c st 0 [plain]])"
          using d p by simp
        moreover have "downloadedSize (heap ?m5 ! a) = 1"
            "progress (heap ?m5 ! a) = roundPercent 1 (length (tsUrls st))"
          using l4 by (simp_all add: saveMetadata_def task_update_def)
        ultimately show ?thesis by blast
      qed
      from 1 ne 2 3 show ?thesis by blast
    qed
    show ?thesis unfolding if_P [OF hls] using s2 run by blast
  next
    case direct: False
    then have d: "choosePath u = DirectFile" by (cases "choosePath u") simp_all
    have s2: "step e m2 (StartDownload_saved a) = (m3, [File_request a c fp u])"
      using d by (simp add: k2 downloadFile_def m3_def c fp)
    have run: "\<exists>m4. step e m3 (File_request a c fp u)
                   = (m4, [File_data a c fp (case len of Some n \<Rightarrow> n | None \<Rightarrow> 0) 0 chunks])
                \<and> map_of (disk m4) fp = Some []
                \<and> status (heap m4 ! a) = Downloading
                \<and> progress (heap m4 ! a) = 0
                \<and> downloadedSize (heap m4 ! a) = 0"
      if h: "http_file e u = Response 200 (len, chunks)" for len chunks
    proof -
      let ?m4 = "(task_update a
                   (\<lambda>t. t\<lparr>totalSize := (case len of Some n \<Rightarrow> n | None \<Rightarrow> 0)\<rparr>) m3)
                  \<lparr>disk := AList.update fp [] (disk m3)\<rparr>"
      have "step e m3 (File_request a c fp u)
          = (?m4, [File_data a c fp (case len of Some n \<Rightarrow> n | None \<Rightarrow> 0) 0 chunks])"
        using nc h by simp
      moreover have "map_of (disk ?m4) fp = Some []" by (simp add: update_conv')
      moreover have "status (heap ?m4 ! a) = Downloading" "progress (heap ?m4 ! a) = 0"
          "downloadedSize (heap ?m4 ! a) = 0"
        using k3(1) f2 by (simp_all add: task_update_def k3(4))
      ultimately show ?thesis by blast
    qed
    show ?thesis unfolding if_not_P [OF direct] using s2 run by blast
  qed
  from r f1 s1 f2 branch
  have "\<exists>m1 m2 m3.
                 retryTask m taskId = Inr (m1, [RetryTask_saved taskId])
               \<and> status (heap m1 ! a) = Pending
               \<and> progress (heap m1 ! a) = 0
               \<and> downloadedSize (heap m1 ! a) = 0
               \<and> error (heap m1 ! a) = None
               \<and> step e m1 (RetryTask_saved taskId) = (m2, [StartDownload_saved a])
               \<and> status (heap m2 ! a) = Downloading
               \<and> progress (heap m2 ! a) = 0
               \<and> downloadedSize (heap m2 ! a) = 0
               \<and> (if choosePath u = HLS
                  then step e m2 (StartDownload_saved a) = (m3, [M3u8_fetch a c u])
                     \<and> (\<forall>mu content st.
                           fetchMediaPlaylist e u = Inr (mu, content)
                           \<and> parsePlaylist e mu content = Inr st
                           \<longrightarrow> (\<exists>m4.
                                  (resume_playlist e ^^ (length (split_str (CHR 0x0A) content) + 2))
                                     (m3, [M3u8_fetch a c u])
                                   = (m4, [M3u8_segment a c st 0 []])
                                \<and> tsUrls st \<noteq> []
                                \<and> status (heap m4 ! a) = Downloading
                                \<and> progress (heap m4 ! a) = 0
                                \<and> downloadedSize (heap m4 ! a) = 0
                                \<and> totalSize (heap m4 ! a) = length (tsUrls st)
                                \<and> (\<forall>buf plain.
                                      downloadSegmentToBuffer e (tsUrls st ! 0) = Inr buf
                                      \<and> (case aesKey st of
                                            Some k \<Rightarrow>
                                              if aesMethod st = Some ''AES-128''
                                              then decryptAES128 (createDecipheriv e) buf k
                                                     (aesIV st) 0
                                              else Inr buf
                                          | None \<Rightarrow> Inr buf) = Inr plain
                                      \<longrightarrow> (\<exists>m5.
                                             step e m4 (M3u8_segment a c st 0 [])
                                               = (m5, [M3u8_saved a c st 0 [plain]])
                                           \<and> downloadedSize (heap m5 ! a) = 1
                                           \<and> progress (heap m5 ! a)
                                               = roundPercent 1 (length (tsUrls st))))))
                  else step e m2 (StartDownload_saved a) = (m3, [File_request a c fp u])
                     \<and> (\<forall>len chunks.
                           http_file e u = Response 200 (len, chunks)
                           \<longrightarrow> (\<exists>m4.
                                  step e m3 (File_request a c fp u)
                                   = (m4, [File_data a c fp (case len of Some n \<Rightarrow> n | None \<Rightarrow> 0)
                                             0 chunks])
                                \<and> map_of (disk m4) fp = Some []
                                \<and> status (heap m4 ! a) = Downloading
                                \<and> progress (heap m4 ! a) = 0
                                \<and> downloadedSize (heap m4 ! a) = 0)))"
    by blast
  then show ?thesis unfolding if_not_P [OF False] .
qed

theorem retryTask_restarts_witness:
  "status (heap (fst failed_example) ! 0) = Error
   \<and> progress (heap (fst failed_example) ! 0) = 67
   \<and> downloadedSize (heap (fst failed_example) ! 0) = 2
   \<and> retryTask (fst downloading_example) ''t1'' = Inl TaskIsDownloading
   \<and> (\<exists>m1 m2 m3 m4 m5 st.
          retryTask (fst failed_example) ''t1'' = Inr (m1, [RetryTask_saved ''t1''])
        \<and> status (heap m1 ! 0) = Pending
        \<and> progress (heap m1 ! 0) = 0
        \<and> downloadedSize (heap m1 ! 0) = 0
        \<and> error (heap m1 ! 0) = None
        \<and> step example_env m1 (RetryTask_saved ''t1'') = (m2, [StartDownload_saved 0])
        \<and> step example_env m2 (StartDownload_saved 0)
            = (m3, [M3u8_fetch 0 1 ''http://h/broken.m3u8''])
        \<and> (resume_playlist example_env ^^ 5) (m3, [M3u8_fetch 0 1 ''http://h/broken.m3u8''])
            = (m4, [M3u8_segment 0 1 st 0 []])
        \<and> tsUrls st = [''http://h/s0.ts'', ''http://h/s1.ts'', ''http://h/gone.ts'']
        \<and> progress (heap m4 ! 0) = 0
        \<and> downloadedSize (heap m4 ! 0) = 0
        \<and> totalSize (heap m4 ! 0) = 3
        \<and> step example_env m4 (M3u8_segment 0 1 st 0 []) = (m5, [M3u8_saved 0 1 st 0 [[1, 2]]])
        \<and> downloadedSize (heap m5 ! 0) = 1
        \<and> progress (heap m5 ! 0) = 33)"
proof -
  let ?url = "''http://h/broken.m3u8''"
  let ?text = "''s0.ts'' @ LF @ ''s1.ts'' @ LF @ ''gone.ts''"
  let ?st = "\<lparr>lines = [''s0.ts'', ''s1.ts'', ''gone.ts''],
              m3u8Url = \<lparr>protocol = ''http:'', host = ''h'', href = ?url\<rparr>,
              baseUrl = ''http://h/'', aesKey = None, aesIV = None, aesMethod = None,
              tsUrls = [''http://h/s0.ts'', ''http://h/s1.ts'', ''http://h/gone.ts'']\<rparr>"
  have b1: "status (heap (fst failed_example) ! 0) = Error" by code_simp
  have b2: "progress (heap (fst failed_example) ! 0) = 67" by code_simp
  have b3: "downloadedSize (heap (fst failed_example) ! 0) = 2" by code_simp
  have d1: "map_of (tasks (fst downloading_example)) ''t1'' = Some 0" by code_simp
  have d2: "0 < length (heap (fst downloading_example))" by code_simp
  have d3: "status (heap (fst downloading_example) ! 0) = Downloading" by code_simp
  have f1: "map_of (tasks (fst failed_example)) ''t1'' = Some 0" by code_simp
  have f2: "0 < length (heap (fst failed_example))" by code_simp
  have f3: "status (heap (fst failed_example) ! 0) \<noteq> Downloading" by (simp add: b1)
  have f4: "1 = length (controllers (fst failed_example))" by code_simp
  have f5: "?url = url (heap (fst failed_example) ! 0)" by code_simp
  have hls: "choosePath ?url = HLS" by code_simp
  have fm: "fetchMediaPlaylist example_env ?url = Inr (?url, ?text)" by code_simp
  have pp: "parsePlaylist example_env ?url ?text = Inr ?st" by code_simp
  have len: "length (split_str (CHR 0x0A) ?text) + 2 = 5" by code_simp
  have dl: "downloadSegmentToBuffer example_env (tsUrls ?st ! 0) = Inr [1, 2]" by code_simp
  have dec: "(case aesKey ?st of
                Some k \<Rightarrow>
                  if aesMethod ?st = Some ''AES-128''
                  then decryptAES128 (createDecipheriv example_env) [1, 2] k (aesIV ?st) 0
                  else Inr [1, 2]
              | None \<Rightarrow> Inr [1, 2]) = Inr [1, 2]"
    by simp
  have pc: "roundPercent 1 (length (tsUrls ?st)) = 33" by code_simp
  have r1: "retryTask (fst downloading_example) ''t1'' = Inl TaskIsDownloading"
    using retryTask_restarts [OF d1 d2 refl refl refl] unfolding if_P [OF d3] .
  note q = retryTask_restarts [where e = example_env, OF f1 f2 f4 f5 refl,
      unfolded if_not_P [OF f3] if_P [OF hls]]
  from q obtain m1 m2 m3 where
      q1: "retryTask (fst failed_example) ''t1'' = Inr (m1, [RetryTask_saved ''t1''])"
      "status (heap m1 ! 0) = Pending" "progress (heap m1 ! 0) = 0"
      "downloadedSize (heap m1 ! 0) = 0" "error (heap m1 ! 0) = None"
      "step example_env m1 (RetryTask_saved ''t1'') = (m2, [StartDownload_saved 0])"
      "step example_env m2 (StartDownload_saved 0) = (m3, [M3u8_fetch 0 1 ?url])"
    and H: "\<forall>mu content st.
              fetchMediaPlaylist example_env ?url = Inr (mu, content)
              \<and> parsePlaylist example_env mu content = Inr st
              \<longrightarrow> (\<exists>m4.
                     (resume_playlist example_env ^^ (length (split_str (CHR 0x0A) content) + 2))
                        (m3, [M3u8_fetch 0 1 ?url])
                      = (m4, [M3u8_segment 0 1 st 0 []])
                   \<and> tsUrls st \<noteq> []
                   \<and> status (heap m4 ! 0) = Downloading
                   \<and> progress (heap m4 ! 0) = 0
                   \<and> downloadedSize (heap m4 ! 0) = 0
                   \<and> totalSize (heap m4 ! 0) = length (tsUrls st)
                   \<and> (\<forall>buf plain.
                         downloadSegmentToBuffer example_env (tsUrls st ! 0) = Inr buf
                         \<and> (case aesKey st of
                               Some k \<Rightarrow>
                                 if aesMethod st = Some ''AES-128''
                                 then decryptAES128 (createDecipheriv example_env) buf k
                                        (aesIV st) 0
                                 else Inr buf
                             | None \<Rightarrow> Inr buf) = Inr plain
                         \<longrightarrow> (\<exists>m5.
                                step example_env m4 (M3u8_segment 0 1 st 0 [])
                                  = (m5, [M3u8_saved 0 1 st 0 [plain]])
                              \<and> downloadedSize (heap m5 ! 0) = 1
                              \<and> progress (heap m5 ! 0)
                                  = roundPercent 1 (length (tsUrls st)))))"
    by blast
  from H [rule_format, OF conjI [OF fm pp], unfolded len] obtain m4 where
      q4: "(resume_playlist example_env ^^ 5) (m3, [M3u8_fetch 0 1 ?url])
            = (m4, [M3u8_segment 0 1 ?st 0 []])"
      "progress (heap m4 ! 0) = 0" "downloadedSize (heap m4 ! 0) = 0"
      "totalSize (heap m4 ! 0) = length (tsUrls ?st)"
    and G: "\<forall>buf plain.
              downloadSegmentToBuffer example_env (tsUrls ?st ! 0) = Inr buf
              \<and> (case aesKey ?st of
                    Some k \<Rightarrow>
                      if aesMethod ?st = Some ''AES-128''
                      then decryptAES128 (createDecipheriv example_env) buf k (aesIV ?st) 0
                      else Inr buf
                  | None \<Rightarrow> Inr buf) = Inr plain
              \<longrightarrow> (\<exists>m5.
                     step example_env m4 (M3u8_segment 0 1 ?st 0 [])
                       = (m5, [M3u8_saved 0 1 ?st 0 [plain]])
                   \<and> downloadedSize (heap m5 ! 0) = 1
                   \<and> progress (heap m5 ! 0) = roundPercent 1 (length (tsUrls ?st)))"
    by blast
  from G [rule_format, OF conjI [OF dl dec], unfolded pc] obtain m5 where
      q5: "step example_env m4 (M3u8_segment 0 1 ?st 0 []) = (m5, [M3u8_saved 0 1 ?st 0 [[1, 2]]])"
      "downloadedSize (heap m5 ! 0) = 1" "progress (heap m5 ! 0) = 33"
    by blast
  have ts: "tsUrls ?st = [''http://h/s0.ts'', ''http://h/s1.ts'', ''http://h/gone.ts'']"
    by simp
  have tot: "totalSize (heap m4 ! 0) = 3" using q4(4) by simp
  from q1 q4(1) ts q4(2,3) tot q5
  have r2: "\<exists>m1 m2 m3 m4 m5 st.
          retryTask (fst failed_example) ''t1'' = Inr (m1, [RetryTask_saved ''t1''])
        \<and> status (heap m1 ! 0) = Pending
        \<and> progress (heap m1 ! 0) = 0
        \<and> downloadedSize (heap m1 ! 0) = 0
        \<and> error (heap m1 ! 0) = None
        \<and> step example_env m1 (RetryTask_saved ''t1'') = (m2, [StartDownload_saved 0])
        \<and> step example_env m2 (StartDownload_saved 0)
            = (m3, [M3u8_fetch 0 1 ''http://h/broken.m3u8''])
        \<and> (resume_playlist example_env ^^ 5) (m3, [M3u8_fetch 0 1 ''http://h/broken.m3u8''])
            = (m4, [M3u8_segment 0 1 st 0 []])
        \<and> tsUrls st = [''http://h/s0.ts'', ''http://h/s1.ts'', ''http://h/gone.ts'']
        \<and> progress (heap m4 ! 0) = 0
        \<and> downloadedSize (heap m4 ! 0) = 0
        \<and> totalSize (heap m4 ! 0) = 3
        \<and> step example_env m4 (M3u8_segment 0 1 st 0 []) = (m5, [M3u8_saved 0 1 st 0 [[1, 2]]])
        \<and> downloadedSize (heap m5 ! 0) = 1
        \<and> progress (heap m5 ! 0) = 33"
    by blast
  from b1 b2 b3 r1 r2 show ?thesis by (intro conjI)
qed

section \<open>Output files\<close>

lemma endsWith_append: "endsWith (a @ b) b"
  unfolding endsWith_iff by blast

lemma endsWith_append2: "endsWith b s \<Longrightarrow> endsWith (a @ b) s"
  unfolding endsWith_iff by (metis append.assoc)

lemma generateFileName_ts: "endsWith (generateFileName src vid ep) ''.ts''"
proof -
  have "generateFileName src vid ep
      = (src @ ''_'' @ vid @ ''_'' @ String_of_int (sint ep)) @ ''.ts''"
    by (simp add: generateFileName_def)
  then show ?thesis unfolding endsWith_iff by blast
qed

lemma normalizeSegments_snoc:
  "seg \<noteq> [] \<Longrightarrow> seg \<noteq> ''.'' \<Longrightarrow> seg \<noteq> ''..'' \<Longrightarrow>
   normalizeSegments allow res (segs @ [seg]) = normalizeSegments allow res segs @ [seg]"
  by (induction segs arbitrary: res) simp_all

lemma join_str_snoc:
  "join_str sep (xs @ [l]) = (if xs = [] then l else join_str sep xs @ sep # l)"
  by (induction sep xs rule: join_str.induct) auto

lemma path_normalize_ts:
  assumes "endsWith p ''.ts''"
  shows "endsWith (path_normalize p) ''.ts''"
proof -
  from assms obtain t where p: "p = t @ ''.ts''" unfolding endsWith_iff by blast
  define seg where "seg = last (split_str CHR ''/'' t) @ ''.ts''"
  have sp: "split_str CHR ''/'' p = butlast (split_str CHR ''/'' t) @ [seg]"
    unfolding p seg_def by (rule split_str_append) simp
  have seg: "seg \<noteq> []" "seg \<noteq> ''.''" "seg \<noteq> ''..''" "endsWith seg ''.ts''"
    unfolding seg_def endsWith_iff by auto
  define kept where
    "kept = normalizeSegments (hd p \<noteq> CHR ''/'') [] (butlast (split_str CHR ''/'' t))"
  have "normalizeSegments (hd p \<noteq> CHR ''/'') [] (split_str CHR ''/'' p) = kept @ [seg]"
    unfolding sp kept_def using seg(1-3) by (rule normalizeSegments_snoc)
  then have j: "join_str CHR ''/'' (normalizeSegments (hd p \<noteq> CHR ''/'') []
      (split_str CHR ''/'' p)) = (if kept = [] then seg else join_str CHR ''/'' kept @ CHR ''/'' # seg)"
    by (simp add: join_str_snoc)
  then obtain pre where pre: "join_str CHR ''/'' (normalizeSegments (hd p \<noteq> CHR ''/'') []
      (split_str CHR ''/'' p)) = pre @ seg"
    by (cases "kept = []") (auto intro: that [of "[]"] that [of "join_str CHR ''/'' kept @ ''/''"])
  have ne: "pre @ seg \<noteq> []" using seg(1) by simp
  have lastp: "last p \<noteq> CHR ''/''" "p \<noteq> []" by (simp_all add: p)
  have "path_normalize p = (if hd p = CHR ''/'' then ''/'' else []) @ pre @ seg"
    using lastp ne unfolding path_normalize_def pre by (cases "pre @ seg") auto
  moreover have "endsWith ((if hd p = CHR ''/'' then ''/'' else []) @ pre @ seg) ''.ts''"
    using seg(4) by (intro endsWith_append2)
  ultimately show ?thesis by simp
qed

lemma path_join_ts: "endsWith name ''.ts'' \<Longrightarrow> endsWith (path_join dir name) ''.ts''"
proof -
  assume h: "endsWith name ''.ts''"
  then have "name \<noteq> []" unfolding endsWith_iff by auto
  moreover have "endsWith (dir @ ''/'' @ name) ''.ts''"
    using h by (intro endsWith_append2)
  ultimately show ?thesis using h by (simp add: path_join_def path_normalize_ts)
qed

lemma ts_not_m3u8: "endsWith p ''.ts'' \<Longrightarrow> \<not> endsWith p ''.m3u8''"
proof
  assume "endsWith p ''.ts''" and "endsWith p ''.m3u8''"
  then obtain a b where "p = a @ ''.ts''" "p = b @ ''.m3u8''" unfolding endsWith_iff by blast
  then have "last p = CHR ''s''" "last p = CHR ''8''" by simp_all
  then show False by simp
qed

subsection \<open>The invariant of a run\<close>

lemma recorded_ok_update:
  assumes "list_all recorded_ok (heap m)" and "\<And>t. recorded_ok t \<Longrightarrow> recorded_ok (f t)"
  shows "list_all recorded_ok (heap (task_update a f m))"
proof (cases "a < length (heap m)")
  case True
  then have "recorded_ok (heap m ! a)" using assms(1) by (simp add: list_all_length)
  then have "recorded_ok (f (heap m ! a))" by (rule assms(2))
  moreover have "set ((heap m)[a := f (heap m ! a)]) \<subseteq> insert (f (heap m ! a)) (set (heap m))"
    by (rule set_update_subset_insert)
  ultimately show ?thesis
    using assms(1) by (auto simp: task_update_def list_all_iff)
next
  case False
  then show ?thesis using assms(1) by (simp add: task_update_def list_update_beyond)
qed

lemma manager_ok_update:
  assumes "manager_ok m" and "\<And>t. recorded_ok t \<Longrightarrow> recorded_ok (f t)"
  shows "manager_ok (task_update a f m)"
proof -
  have "list_all recorded_ok (heap (task_update a f m))"
    using assms by (intro recorded_ok_update) (simp_all add: manager_ok_def)
  then show ?thesis using assms(1) by (simp add: manager_ok_def task_update_def)
qed

lemma manager_ok_saveMetadata:
  assumes "manager_ok m"
  shows "manager_ok (saveMetadata m)"
proof -
  have "recorded_ok (heap m ! snd p)" if "p \<in> set (tasks m)" for p
  proof -
    from that assms have "snd p < length (heap m)"
      by (simp add: manager_ok_def list_all_iff)
    then show ?thesis using assms by (simp add: manager_ok_def list_all_length)
  qed
  then have "list_all recorded_ok (tasks_values m)"
    by (simp add: tasks_values_def list_all_iff)
  then show ?thesis using assms by (simp add: manager_ok_def saveMetadata_def)
qed

lemma heap_length_task_update [simp]: "length (heap (task_update a f m)) = length (heap m)"
  by (simp add: task_update_def)

lemma heap_length_saveMetadata [simp]: "length (heap (saveMetadata m)) = length (heap m)"
  by (simp add: saveMetadata_def)

lemma manager_ok_tasks:
  assumes "manager_ok m" and "heap m' = heap m" and "metadata m' = metadata m"
    and "set (tasks m') \<subseteq> set (tasks m)"
  shows "manager_ok m'"
  using assms by (auto simp: manager_ok_def list_all_iff)

lemma set_delete_subset: "set (AList.delete k al) \<subseteq> set al"
  by (auto simp: AList.delete_eq)

lemma manager_ok_activeDownloads_delete:
  "manager_ok m \<Longrightarrow> manager_ok (activeDownloads_delete m a)"
  by (simp add: manager_ok_def activeDownloads_delete_def)

lemma heap_length_activeDownloads_delete [simp]:
  "length (heap (activeDownloads_delete m a)) = length (heap m)"
  by (simp add: activeDownloads_delete_def)

lemma manager_ok_startDownload_catch:
  "manager_ok m \<Longrightarrow> manager_ok (startDownload_catch m a x)"
  unfolding startDownload_catch_def
  by (intro manager_ok_saveMetadata manager_ok_update) (simp_all add: recorded_ok_def)

lemma manager_ok_startDownload_finish:
  "manager_ok m \<Longrightarrow> manager_ok (startDownload_finish m a)"
  unfolding startDownload_finish_def
  by (intro manager_ok_saveMetadata manager_ok_update) (simp_all add: recorded_ok_def)

lemma manager_ok_downloadM3u8_catch:
  "manager_ok m \<Longrightarrow> manager_ok (downloadM3u8_catch m a x)"
  unfolding downloadM3u8_catch_def
  by (intro manager_ok_startDownload_catch manager_ok_activeDownloads_delete)

lemma heap_length_catch [simp]:
  "length (heap (startDownload_catch m a x)) = length (heap m)"
  "length (heap (startDownload_finish m a)) = length (heap m)"
  "length (heap (downloadM3u8_catch m a x)) = length (heap m)"
  by (simp_all add: startDownload_catch_def startDownload_finish_def downloadM3u8_catch_def)

lemma result_ok_segmentLoop:
  "manager_ok m \<Longrightarrow> result_ok m (segmentLoop m a c st i bufs)"
proof -
  assume ok: "manager_ok m"
  have "endsWith (path_join (downloadDir m)
          (source (heap m ! a) @ ''_'' @ videoId (heap m ! a) @ ''_''
             @ String_of_int (sint (episodeIndex (heap m ! a))) @ ''.ts'')) ''.ts''"
    using generateFileName_ts [of "source (heap m ! a)" "videoId (heap m ! a)"
        "episodeIndex (heap m ! a)"]
    by (intro path_join_ts) (simp add: generateFileName_def)
  then show ?thesis
    using ok by (simp add: result_ok_def segmentLoop_def manager_ok_downloadM3u8_catch)
qed

lemma result_ok_segmentsPhase:
  assumes "manager_ok m"
  shows "result_ok m (segmentsPhase m a c st)"
proof -
  let ?urls = "parseTsUrls (m3u8Url st) (baseUrl st) [] (lines st)"
  let ?m1 = "task_update a (\<lambda>t. t\<lparr>totalSize := length ?urls\<rparr>) m"
  have "manager_ok ?m1"
    using assms by (intro manager_ok_update) (simp_all add: recorded_ok_def)
  then have "result_ok ?m1 (segmentLoop ?m1 a c (st\<lparr>tsUrls := ?urls\<rparr>) 0 [])"
    by (rule result_ok_segmentLoop)
  then have "result_ok m (segmentLoop ?m1 a c (st\<lparr>tsUrls := ?urls\<rparr>) 0 [])"
    by (simp add: result_ok_def)
  then show ?thesis
    using assms by (simp add: segmentsPhase_def Let_def result_ok_def manager_ok_downloadM3u8_catch)
qed

lemma result_ok_keyLoop:
  "manager_ok m \<Longrightarrow> result_ok m (keyLoop m a c st ls)"
proof (induction ls arbitrary: st)
  case Nil
  then show ?case by (simp add: result_ok_segmentsPhase)
next
  case (Cons l ls)
  then show ?case
    by (auto simp: Let_def result_ok_def split: option.splits)
qed

lemma result_ok_parseM3u8:
  "manager_ok m \<Longrightarrow> result_ok m (parseM3u8 e m a c content)"
  by (auto simp: parseM3u8_def result_ok_keyLoop split: sum.splits)
     (simp add: result_ok_def manager_ok_downloadM3u8_catch)

lemma result_ok_catch:
  "manager_ok m \<Longrightarrow> result_ok m (downloadM3u8_catch m a x, [])"
  "manager_ok m \<Longrightarrow> result_ok m (startDownload_catch m a x, [])"
  "manager_ok m \<Longrightarrow> result_ok m (startDownload_finish m a, [])"
  by (simp_all add: result_ok_def manager_ok_downloadM3u8_catch manager_ok_startDownload_catch
      manager_ok_startDownload_finish)

lemma result_ok_startDownload:
  assumes "manager_ok m"
  shows "result_ok m (startDownload m taskId)"
proof (cases "map_of (tasks m) taskId")
  case None
  then show ?thesis using assms by (simp add: startDownload_def result_ok_def)
next
  case (Some a)
  then have "(taskId, a) \<in> set (tasks m)" by (rule map_of_SomeD)
  then have a: "a < length (heap m)" using assms by (auto simp: manager_ok_def list_all_iff)
  have "manager_ok (saveMetadata (task_update a (\<lambda>t. t\<lparr>status := Downloading\<rparr>) m))"
    using assms by (intro manager_ok_saveMetadata manager_ok_update) (simp_all add: recorded_ok_def)
  then show ?thesis using Some a by (simp add: startDownload_def result_ok_def)
qed

lemma manager_ok_registered:
  "manager_ok m \<Longrightarrow>
   manager_ok (m\<lparr>controllers := cs, activeDownloads := ad\<rparr>)"
  by (simp add: manager_ok_def)

lemma result_ok_downloadM3u8: "manager_ok m \<Longrightarrow> result_ok m (downloadM3u8 m a)"
  by (simp add: downloadM3u8_def result_ok_def manager_ok_def)

lemma result_ok_downloadFile:
  assumes "manager_ok m" and "a < length (heap m)"
  shows "result_ok m (downloadFile m a)"
proof -
  have "recorded_ok (heap m ! a)" using assms by (simp add: manager_ok_def list_all_length)
  then have "endsWith (fileName (heap m ! a)) ''.ts''"
    by (simp add: recorded_ok_def generateFileName_ts)
  then have "endsWith (path_join (downloadDir m) (fileName (heap m ! a))) ''.ts''"
    by (rule path_join_ts)
  then show ?thesis using assms(1) by (simp add: downloadFile_def result_ok_def manager_ok_def)
qed


lemma frame_ok_mono: "frame_ok n f \<Longrightarrow> n \<le> n' \<Longrightarrow> frame_ok n' f"
  by (cases f) auto

lemma result_ok_step:
  assumes ok: "manager_ok m" and f: "frame_ok (length (heap m)) f"
  shows "result_ok m (step e m f)"
proof (cases f)
  case (AddTask_saved taskId)
  then show ?thesis using ok by (simp add: result_ok_startDownload)
next
  case (RetryTask_saved taskId)
  then show ?thesis using ok by (simp add: result_ok_startDownload)
next
  case (DeleteTask_unlink taskId p)
  have "manager_ok (m\<lparr>disk := AList.delete p (disk m), tasks := AList.delete taskId (tasks m)\<rparr>)"
    using ok set_delete_subset [of taskId "tasks m"] by (auto simp: manager_ok_def list_all_iff)
  then have "manager_ok (saveMetadata
      (m\<lparr>disk := AList.delete p (disk m), tasks := AList.delete taskId (tasks m)\<rparr>))"
    by (rule manager_ok_saveMetadata)
  then show ?thesis using DeleteTask_unlink by (simp add: result_ok_def)
next
  case (DeleteTask_readdir taskId videoDir)
  then show ?thesis using f by simp
next
  case (StartDownload_saved a)
  then have "a < length (heap m)" using f by simp
  then show ?thesis
    using StartDownload_saved ok
    by (simp add: result_ok_downloadM3u8 result_ok_downloadFile split: download_path.splits)
next
  case (M3u8_fetch a c u)
  then show ?thesis
    using ok
    by (auto simp: result_ok_catch result_ok_parseM3u8 split: sum.splits option.splits)
       (simp add: result_ok_def)
next
  case (M3u8_fetchMedia a c mu)
  have "manager_ok (task_update a (\<lambda>t. t\<lparr>url := mu\<rparr>) m)"
    using ok by (intro manager_ok_update) (simp_all add: recorded_ok_def)
  then have "result_ok (task_update a (\<lambda>t. t\<lparr>url := mu\<rparr>) m)
      (parseM3u8 e (task_update a (\<lambda>t. t\<lparr>url := mu\<rparr>) m) a c content)" for content
    by (rule result_ok_parseM3u8)
  then have "result_ok m (parseM3u8 e (task_update a (\<lambda>t. t\<lparr>url := mu\<rparr>) m) a c content)"
    for content
    by (simp add: result_ok_def)
  then show ?thesis
    using M3u8_fetchMedia ok by (auto simp: result_ok_catch split: sum.splits)
next
  case (M3u8_key a c st rest keyUrl ivMatch)
  then show ?thesis
    using ok by (auto simp: result_ok_catch result_ok_keyLoop split: sum.splits option.splits)
next
  case (M3u8_segment a c st i bufs)
  have "manager_ok (saveMetadata (task_update a
      (\<lambda>t. t\<lparr>downloadedSize := i + 1,
             progress := roundPercent (i + 1) (length (tsUrls st))\<rparr>) m))"
    using ok by (intro manager_ok_saveMetadata manager_ok_update) (simp_all add: recorded_ok_def)
  then have "result_ok m (saveMetadata (task_update a
      (\<lambda>t. t\<lparr>downloadedSize := i + 1,
             progress := roundPercent (i + 1) (length (tsUrls st))\<rparr>) m),
      [M3u8_saved a c st i bufs'])" for bufs'
    by (simp add: result_ok_def)
  then show ?thesis
    using M3u8_segment ok by (auto simp: result_ok_catch split: sum.splits option.splits)
next
  case (M3u8_saved a c st i bufs)
  then show ?thesis using ok by (simp add: result_ok_segmentLoop)
next
  case (M3u8_write a c p d)
  then have p: "endsWith p ''.ts''" using f by simp
  have "manager_ok (m\<lparr>disk := AList.update p d (disk m)\<rparr>)"
    using ok by (simp add: manager_ok_def)
  then have "manager_ok (task_update a (\<lambda>t. t\<lparr>filePath := Some p\<rparr>)
      (m\<lparr>disk := AList.update p d (disk m)\<rparr>))"
    using p by (intro manager_ok_update) (simp_all add: recorded_ok_def)
  then have "manager_ok (startDownload_finish (activeDownloads_delete
      (task_update a (\<lambda>t. t\<lparr>filePath := Some p\<rparr>)
         (m\<lparr>disk := AList.update p d (disk m)\<rparr>)) a) a)"
    by (intro manager_ok_startDownload_finish manager_ok_activeDownloads_delete)
  then show ?thesis
    using M3u8_write ok by (simp add: result_ok_def manager_ok_downloadM3u8_catch)
next
  case (File_request a c fp u)
  then have p: "endsWith fp ''.ts''" using f by simp
  have "manager_ok (task_update a (\<lambda>t. t\<lparr>totalSize := n\<rparr>) m)" for n
    using ok by (intro manager_ok_update) (simp_all add: recorded_ok_def)
  then have "manager_ok ((task_update a (\<lambda>t. t\<lparr>totalSize := n\<rparr>) m)
      \<lparr>disk := AList.update fp [] (disk m)\<rparr>)" for n
    by (simp add: manager_ok_def)
  then have c3: "result_ok m ((task_update a (\<lambda>t. t\<lparr>totalSize := n\<rparr>) m)
      \<lparr>disk := AList.update fp [] (disk m)\<rparr>, [File_data a c fp n 0 b])" for n b
    using p by (simp add: result_ok_def)
  have c1: "result_ok m (startDownload_catch (activeDownloads_delete m a) a x, [])" for x
    using ok
    by (simp add: result_ok_def manager_ok_startDownload_catch manager_ok_activeDownloads_delete)
  have c2: "result_ok m (startDownload_catch m a x, [])" for x
    using ok by (simp add: result_ok_def manager_ok_startDownload_catch)
  show ?thesis
    using File_request by (auto simp: c1 c2 c3 split: response.splits)
next
  case (File_data a c fp size0 downloaded chunks)
  then have p: "endsWith fp ''.ts''" using f by simp
  have fin: "manager_ok (startDownload_finish (activeDownloads_delete
      (task_update a (\<lambda>t. t\<lparr>filePath := Some fp\<rparr>) m) a) a)"
    using ok p
    by (intro manager_ok_startDownload_finish manager_ok_activeDownloads_delete manager_ok_update)
       (simp_all add: recorded_ok_def)
  have "manager_ok (task_update a (\<lambda>t. t\<lparr>downloadedSize := n, progress := k\<rparr>) m)" for n k
    using ok by (intro manager_ok_update) (simp_all add: recorded_ok_def)
  then have tick: "manager_ok ((task_update a (\<lambda>t. t\<lparr>downloadedSize := n, progress := k\<rparr>) m)
      \<lparr>disk := dk\<rparr>)" for n k dk
    by (simp add: manager_ok_def)
  have ab: "manager_ok (startDownload_catch (activeDownloads_delete m a) a AbortError)"
    using ok by (intro manager_ok_startDownload_catch manager_ok_activeDownloads_delete)
  show ?thesis
    using File_data ok p fin tick ab by (auto simp: result_ok_def split: list.splits)
qed

lemma set_update_subset: "set (AList.update k v al) \<subseteq> insert (k, v) (set al)"
  by (induction al) auto

lemma result_ok_createTask:
  assumes "manager_ok m"
  shows "result_ok m (fst (createTask m td taskId now), snd (snd (createTask m td taskId now)))"
proof -
  let ?t = "\<lparr>id_task = taskId, url = td_url td, source = td_source td,
                videoId = td_videoId td, videoTitle = td_videoTitle td,
                episodeIndex = td_episodeIndex td, status = Pending, progress = 0,
                totalSize = 0, downloadedSize = 0, error = None, createdAt = now,
                filePath = None,
                fileName = generateFileName (td_source td) (td_videoId td) (td_episodeIndex td)\<rparr>"
  let ?m1 = "m\<lparr>heap := heap m @ [?t],
           tasks := AList.update taskId (length (heap m)) (tasks m)\<rparr>"
  have "recorded_ok ?t" by (simp add: recorded_ok_def)
  moreover have "list_all (\<lambda>p. snd p < length (heap m) + 1)
      (AList.update taskId (length (heap m)) (tasks m))"
    using assms set_update_subset [of taskId "length (heap m)" "tasks m"]
    by (fastforce simp: manager_ok_def list_all_iff)
  ultimately have "manager_ok ?m1" using assms by (simp add: manager_ok_def)
  then have "manager_ok (saveMetadata ?m1)" by (rule manager_ok_saveMetadata)
  then show ?thesis by (simp add: createTask_def result_ok_def)
qed

lemma result_ok_addTask:
  assumes "manager_ok m" and "addTask m td taskId now = (m', r, fs')"
  shows "result_ok m (m', fs')"
proof -
  consider "(m', r, fs') = createTask m td taskId now" | "m' = m" "fs' = []"
    using assms(2) by (auto simp: addTask_def split: option.splits if_splits)
  then show ?thesis
  proof cases
    case 1
    then have "m' = fst (createTask m td taskId now)"
        "fs' = snd (snd (createTask m td taskId now))"
      by (metis fst_conv, metis snd_conv)
    then show ?thesis using result_ok_createTask [OF assms(1)] by simp
  next
    case 2
    then show ?thesis using assms(1) by (simp add: result_ok_def)
  qed
qed

lemma result_ok_retryTask:
  assumes "manager_ok m" and "retryTask m taskId = Inr (m', fs')"
  shows "result_ok m (m', fs')"
proof -
  from assms(2) obtain a where
    "m' = saveMetadata (task_update a
            (\<lambda>t. t\<lparr>status := Pending, progress := 0, downloadedSize := 0, error := None\<rparr>) m)"
    "fs' = [RetryTask_saved taskId]"
    by (auto simp: retryTask_def split: option.splits if_splits)
  moreover have "manager_ok (saveMetadata (task_update a
            (\<lambda>t. t\<lparr>status := Pending, progress := 0, downloadedSize := 0, error := None\<rparr>) m))"
    using assms(1) by (intro manager_ok_saveMetadata manager_ok_update) (simp_all add: recorded_ok_def)
  ultimately show ?thesis by (simp add: result_ok_def)
qed

lemma manager_ok_abortDownload: "manager_ok m \<Longrightarrow> manager_ok (abortDownload m taskId)"
  by (simp add: abortDownload_def manager_ok_def split: option.splits)

lemma abortDownload_fields [simp]:
  "heap (abortDownload m taskId) = heap m"
  "tasks (abortDownload m taskId) = tasks m"
  "disk (abortDownload m taskId) = disk m"
  "metadata (abortDownload m taskId) = metadata m"
  by (simp_all add: abortDownload_def split: option.splits)

lemma deleteTask_cases:
  assumes ok: "manager_ok m" and t: "map_of (tasks m) taskId = Some a"
  shows "case filePath (heap m ! a) of
           None \<Rightarrow> deleteTask m taskId
                   = (saveMetadata ((abortDownload m taskId)
                        \<lparr>tasks := AList.delete taskId (tasks m)\<rparr>), [])
         | Some p \<Rightarrow> endsWith p ''.ts'' \<and> \<not> endsWith p ''.m3u8''
               \<and> deleteTask m taskId = (abortDownload m taskId, [DeleteTask_unlink taskId p])"
proof -
  from t have "(taskId, a) \<in> set (tasks m)" by (rule map_of_SomeD)
  then have "a < length (heap m)" using ok by (auto simp: manager_ok_def list_all_iff)
  then have r: "recorded_ok (heap m ! a)" using ok by (simp add: manager_ok_def list_all_length)
  show ?thesis
  proof (cases "filePath (heap m ! a)")
    case None
    then show ?thesis using t by (simp add: deleteTask_def)
  next
    case (Some p)
    then have "endsWith p ''.ts''" using r by (simp add: recorded_ok_def)
    then show ?thesis using t Some ts_not_m3u8 [of p] by (simp add: deleteTask_def)
  qed
qed

lemma result_ok_deleteTask:
  assumes "manager_ok m" and "deleteTask m taskId = (m', fs')"
  shows "result_ok m (m', fs')"
proof (cases "map_of (tasks m) taskId")
  case None
  then show ?thesis using assms by (simp add: deleteTask_def result_ok_def)
next
  case (Some a)
  have ab: "manager_ok (abortDownload m taskId)"
    using assms(1) by (rule manager_ok_abortDownload)
  have "manager_ok ((abortDownload m taskId)\<lparr>tasks := AList.delete taskId (tasks m)\<rparr>)"
    using ab set_delete_subset [of taskId "tasks m"]
    by (auto simp: manager_ok_def list_all_iff)
  then have sv: "manager_ok (saveMetadata
      ((abortDownload m taskId)\<lparr>tasks := AList.delete taskId (tasks m)\<rparr>))"
    by (rule manager_ok_saveMetadata)
  show ?thesis
    using deleteTask_cases [OF assms(1) Some] assms(2) ab sv
    by (auto simp: result_ok_def split: option.splits)
qed

lemma result_ok_init_loop:
  "manager_ok m \<Longrightarrow> list_all recorded_ok ts \<Longrightarrow> result_ok m (init_loop m ts)"
proof (induction ts arbitrary: m)
  case Nil
  then show ?case by (simp add: result_ok_def)
next
  case (Cons task rest)
  let ?m1 = "m\<lparr>heap := heap m @ [task],
                tasks := AList.update (id_task task) (length (heap m)) (tasks m)\<rparr>"
  let ?r = "if status task = Downloading \<or> status task = Pending
            then startDownload (task_update (length (heap m)) (\<lambda>t. t\<lparr>status := Pending\<rparr>) ?m1)
                   (id_task task)
            else (?m1, [])"
  have "list_all (\<lambda>p. snd p < length (heap m) + 1)
      (AList.update (id_task task) (length (heap m)) (tasks m))"
    using Cons.prems(1) set_update_subset [of "id_task task" "length (heap m)" "tasks m"]
    by (fastforce simp: manager_ok_def list_all_iff)
  then have m1: "manager_ok ?m1" using Cons.prems by (simp add: manager_ok_def)
  then have "manager_ok (task_update (length (heap m)) (\<lambda>t. t\<lparr>status := Pending\<rparr>) ?m1)"
    by (intro manager_ok_update) (simp_all add: recorded_ok_def)
  then have "result_ok (task_update (length (heap m)) (\<lambda>t. t\<lparr>status := Pending\<rparr>) ?m1)
      (startDownload (task_update (length (heap m)) (\<lambda>t. t\<lparr>status := Pending\<rparr>) ?m1)
         (id_task task))"
    by (rule result_ok_startDownload)
  then have r: "result_ok ?m1 ?r" using m1 by (simp add: result_ok_def)
  then have "result_ok (fst ?r) (init_loop (fst ?r) rest)"
    using Cons.prems(2) by (intro Cons.IH) (simp_all add: result_ok_def)
  then have "result_ok m (fst (init_loop (fst ?r) rest), snd ?r @ snd (init_loop (fst ?r) rest))"
    using r frame_ok_mono by (fastforce simp: result_ok_def list_all_iff)
  moreover have "init_loop m (task # rest)
      = (fst (init_loop (fst ?r) rest), snd ?r @ snd (init_loop (fst ?r) rest))"
    by (simp add: case_prod_beta)
  ultimately show ?case by simp
qed

lemma reachable_ok:
  "reachable e s \<Longrightarrow> manager_ok (fst s) \<and> list_all (frame_ok (length (heap (fst s)))) (snd s)"
proof (induction rule: reachable.induct)
  case (start dir files)
  then show ?case by (simp add: new_manager_def manager_ok_def)
next
  case (call_addTask m fs td taskId now m' r fs')
  then have "result_ok m (m', fs')" using result_ok_addTask by auto
  then show ?case using call_addTask.IH frame_ok_mono
    by (fastforce simp: result_ok_def list_all_iff)
next
  case (call_retryTask m fs taskId m' fs')
  then have "result_ok m (m', fs')" using result_ok_retryTask by auto
  then show ?case using call_retryTask.IH frame_ok_mono
    by (fastforce simp: result_ok_def list_all_iff)
next
  case (call_deleteTask m fs taskId m' fs')
  then have "result_ok m (m', fs')" using result_ok_deleteTask by auto
  then show ?case using call_deleteTask.IH frame_ok_mono
    by (fastforce simp: result_ok_def list_all_iff)
next
  case (resume m fs f fs' m' fs'')
  then have "result_ok m (step e m f)" by (intro result_ok_step) simp_all
  then have "result_ok m (m', fs'')" using resume.hyps by simp
  then show ?case using resume.IH frame_ok_mono
    by (fastforce simp: result_ok_def list_all_iff)
next
  case (restart m fs m' fs')
  let ?n = "new_manager (downloadDir m) (disk m) (metadata m)"
  have n: "manager_ok ?n" using restart.IH
    by (simp add: new_manager_def manager_ok_def)
  show ?case
  proof (cases "metadata m")
    case None
    then show ?thesis using restart.hyps n by (auto simp: init_def new_manager_def)
  next
    case (Some ts)
    then have "list_all recorded_ok ts" using restart.IH by (simp add: manager_ok_def)
    then have "result_ok ?n (init_loop ?n ts)" using n by (intro result_ok_init_loop)
    moreover have "init ?n = init_loop ?n ts" using Some by (simp add: init_def new_manager_def)
    ultimately show ?thesis using restart.hyps by (simp add: result_ok_def)
  qed
qed

subsection \<open>Concrete runs are runs\<close>

lemma reachable_advance: "reachable e s \<Longrightarrow> reachable e (advance e s)"
proof -
  assume r: "reachable e s"
  obtain m fs where s: "s = (m, fs)" by (cases s)
  show ?thesis
  proof (cases fs)
    case Nil
    then show ?thesis using r s by (simp add: advance_def)
  next
    case (Cons f fs')
    obtain m' fs'' where st: "step e m f = (m', fs'')" by (cases "step e m f")
    have "reachable e (m, [] @ f # fs')" using r s Cons by simp
    then have "reachable e (m', [] @ fs'' @ fs')" using st by (rule reachable.resume)
    then show ?thesis using s Cons st by (simp add: advance_def)
  qed
qed

lemma reachable_advances: "reachable e s \<Longrightarrow> reachable e ((advance e ^^ n) s)"
  by (induction n) (simp_all add: reachable_advance)

lemma reachable_call_addTask:
  "reachable e s \<Longrightarrow> reachable e (call_addTask td taskId now s)"
proof -
  assume r: "reachable e s"
  obtain m fs where s: "s = (m, fs)" by (cases s)
  obtain m' x fs' where a: "addTask m td taskId now = (m', x, fs')"
    by (cases "addTask m td taskId now")
  have "reachable e (m', fs @ fs')" using r a unfolding s by (rule reachable.call_addTask)
  then show ?thesis using s a by (simp add: call_addTask_def)
qed

lemma reachable_call_deleteTask:
  "reachable e s \<Longrightarrow> reachable e (call_deleteTask taskId s)"
proof -
  assume r: "reachable e s"
  obtain m fs where s: "s = (m, fs)" by (cases s)
  obtain m' fs' where a: "deleteTask m taskId = (m', fs')" by (cases "deleteTask m taskId")
  have "reachable e (m', fs @ fs')" using r a unfolding s by (rule reachable.call_deleteTask)
  then show ?thesis using s a by (simp add: call_deleteTask_def)
qed

lemma reachable_restart_process:
  "reachable e s \<Longrightarrow> reachable e (restart_process s)"
proof -
  assume r: "reachable e s"
  obtain m fs where s: "s = (m, fs)" by (cases s)
  obtain m' fs' where a: "init (new_manager (downloadDir m) (disk m) (metadata m)) = (m', fs')"
    by (cases "init (new_manager (downloadDir m) (disk m) (metadata m))")
  have "reachable e (m', fs')" using r a unfolding s by (rule reachable.restart)
  then show ?thesis using s a by (simp add: restart_process_def)
qed

lemma reachable_added_example: "reachable e added_example"
  unfolding added_example_def by (intro reachable_call_addTask reachable.start)

lemma reachable_fetching_example: "reachable example_env fetching_example"
  unfolding fetching_example_def by (intro reachable_advance reachable_added_example)

lemma reachable_completed_example: "reachable example_env completed_example"
  unfolding completed_example_def by (intro reachable_advance reachable_fetching_example)

text \<open>
  C10. In every run of a manager that starts without \<open>metadata.json\<close>, restarts
  included, the file name of every task of the store is
  \<open>source_videoId_episodeIndex.ts\<close> and every recorded file path ends in \<open>.ts\<close>, not in
  \<open>.m3u8\<close>. So \<open>deleteTask\<close> never takes the branch that empties a directory: it
  removes nothing when no path is recorded, and otherwise leaves the one computation
  that unlinks the recorded file and keeps every other file.
\<close>

theorem output_paths_end_in_ts:
  assumes r: "reachable e (m, fs)"
    and t: "map_of (tasks m) taskId = Some a"
  shows "fileName (heap m ! a)
           = generateFileName (source (heap m ! a)) (videoId (heap m ! a))
               (episodeIndex (heap m ! a))
       \<and> endsWith (fileName (heap m ! a)) ''.ts''
       \<and> (case filePath (heap m ! a) of
            None \<Rightarrow> snd (deleteTask m taskId) = [] \<and> disk (fst (deleteTask m taskId)) = disk m
          | Some p \<Rightarrow>
              endsWith p ''.ts'' \<and> \<not> endsWith p ''.m3u8''
              \<and> deleteTask m taskId = (abortDownload m taskId, [DeleteTask_unlink taskId p])
              \<and> disk (abortDownload m taskId) = disk m
              \<and> disk (fst (step e m2 (DeleteTask_unlink taskId p))) = AList.delete p (disk m2)
              \<and> (\<forall>q. q \<noteq> p \<longrightarrow>
                    map_of (disk (fst (step e m2 (DeleteTask_unlink taskId p)))) q
                      = map_of (disk m2) q))
       \<and> list_all (\<lambda>f. \<forall>i d. f \<noteq> DeleteTask_readdir i d) fs"
proof -
  from r have ok: "manager_ok m" and fr: "list_all (frame_ok (length (heap m))) fs"
    using reachable_ok [of e "(m, fs)"] by simp_all
  from t have "(taskId, a) \<in> set (tasks m)" by (rule map_of_SomeD)
  then have "a < length (heap m)" using ok by (auto simp: manager_ok_def list_all_iff)
  then have rec: "recorded_ok (heap m ! a)" using ok by (simp add: manager_ok_def list_all_length)
  then have name: "fileName (heap m ! a)
           = generateFileName (source (heap m ! a)) (videoId (heap m ! a))
               (episodeIndex (heap m ! a))"
    by (simp add: recorded_ok_def)
  then have ts: "endsWith (fileName (heap m ! a)) ''.ts''"
    by (simp add: generateFileName_ts)
  have del: "case filePath (heap m ! a) of
            None \<Rightarrow> snd (deleteTask m taskId) = [] \<and> disk (fst (deleteTask m taskId)) = disk m
          | Some p \<Rightarrow>
              endsWith p ''.ts'' \<and> \<not> endsWith p ''.m3u8''
              \<and> deleteTask m taskId = (abortDownload m taskId, [DeleteTask_unlink taskId p])
              \<and> disk (abortDownload m taskId) = disk m
              \<and> disk (fst (step e m2 (DeleteTask_unlink taskId p))) = AList.delete p (disk m2)
              \<and> (\<forall>q. q \<noteq> p \<longrightarrow>
                    map_of (disk (fst (step e m2 (DeleteTask_unlink taskId p)))) q
                      = map_of (disk m2) q)"
    using deleteTask_cases [OF ok t]
    by (auto simp: saveMetadata_def delete_conv split: option.splits)
  have "\<forall>i d. f \<noteq> DeleteTask_readdir i d" if "frame_ok (length (heap m)) f" for f
    using that by (cases f) auto
  then have nodir: "list_all (\<lambda>f. \<forall>i d. f \<noteq> DeleteTask_readdir i d) fs"
    using fr by (simp add: list_all_iff)
  from name ts del nodir show ?thesis by blast
qed

theorem output_paths_end_in_ts_witness:
  "filePath (heap (fst completed_example) ! 0) = Some ''/d/src_vid_0.ts''
   \<and> endsWith ''/d/src_vid_0.ts'' ''.ts''
   \<and> \<not> endsWith ''/d/src_vid_0.ts'' ''.m3u8''
   \<and> deleteTask (fst completed_example) ''t1''
       = (abortDownload (fst completed_example) ''t1'',
          [DeleteTask_unlink ''t1'' ''/d/src_vid_0.ts''])"
proof -
  have h1: "reachable example_env (fst completed_example, snd completed_example)"
    using reachable_completed_example by simp
  have h2: "map_of (tasks (fst completed_example)) ''t1'' = Some 0"
    by code_simp
  have p: "filePath (heap (fst completed_example) ! 0) = Some ''/d/src_vid_0.ts''"
    by code_simp
  note r = output_paths_end_in_ts [OF h1 h2, of "fst completed_example",
      THEN conjunct2, THEN conjunct2, THEN conjunct1, unfolded p option.case]
  from p r [THEN conjunct1] r [THEN conjunct2, THEN conjunct1]
    r [THEN conjunct2, THEN conjunct2, THEN conjunct1]
  show ?thesis by (intro conjI)
qed

section \<open>Three runs in which the code leaves a claim\<close>

text \<open>What \<open>addTask\<close> does by the first task with the key, in insertion order.\<close>

lemma addTask_first_match:
  "addTask m td taskId now =
     (case find (\<lambda>task. source task = td_source td \<and> videoId task = td_videoId td
                        \<and> episodeIndex task = td_episodeIndex td) (tasks_values m) of
        None \<Rightarrow> createTask m td taskId now
      | Some t \<Rightarrow> if status t = Error then createTask m td taskId now else (m, id_task t, []))"
  by (cases "find (\<lambda>task. source task = td_source td \<and> videoId task = td_videoId td
                        \<and> episodeIndex task = td_episodeIndex td) (tasks_values m)")
     (auto simp: addTask_def intro: status.exhaust)

text \<open>
  C1. After a task has failed and the same content has been submitted again, the store
  holds a failed and a pending task for the same (source, videoId, episodeIndex).
  \<open>addTask\<close> looks at the first task with that key only, the failed one, and a third
  submission creates a third task in place of returning the pending one.
\<close>

theorem duplicate_after_error:
  "reachable example_env submitted_twice_example
   \<and> map id_task (tasks_values (fst submitted_twice_example)) = [''a'', ''b'']
   \<and> map status (tasks_values (fst submitted_twice_example)) = [Error, Pending]
   \<and> map source (tasks_values (fst submitted_twice_example)) = [''src'', ''src'']
   \<and> map videoId (tasks_values (fst submitted_twice_example)) = [''vid'', ''vid'']
   \<and> map episodeIndex (tasks_values (fst submitted_twice_example)) = [0, 0]
   \<and> fst (snd (addTask (fst submitted_twice_example)
                 (example_data ''http://h/none.m3u8'') ''c'' 2)) = ''c''
   \<and> map id_task (tasks_values (fst (addTask (fst submitted_twice_example)
                                       (example_data ''http://h/none.m3u8'') ''c'' 2)))
     = [''a'', ''b'', ''c'']"
proof -
  have a: "reachable example_env submitted_twice_example"
    unfolding submitted_twice_example_def failed_once_example_def
    by (intro reachable_call_addTask reachable_advances reachable.start)
  have b: "map id_task (tasks_values (fst submitted_twice_example)) = [''a'', ''b'']
   \<and> map status (tasks_values (fst submitted_twice_example)) = [Error, Pending]
   \<and> map source (tasks_values (fst submitted_twice_example)) = [''src'', ''src'']
   \<and> map videoId (tasks_values (fst submitted_twice_example)) = [''vid'', ''vid'']
   \<and> map episodeIndex (tasks_values (fst submitted_twice_example)) = [0, 0]
   \<and> fst (snd (addTask (fst submitted_twice_example)
                 (example_data ''http://h/none.m3u8'') ''c'' 2)) = ''c''
   \<and> map id_task (tasks_values (fst (addTask (fst submitted_twice_example)
                                       (example_data ''http://h/none.m3u8'') ''c'' 2)))
     = [''a'', ''b'', ''c'']"
    by code_simp
  from a b show ?thesis by (rule conjI)
qed

text \<open>An abort seen at the head of the segment loop ends the run in the error state
  with the cancellation error, and nothing is written.\<close>

lemma cancel_seen_at_loop_head:
  assumes "i < length (tsUrls st)" and "controllers m ! c" and "a < length (heap m)"
  shows "segmentLoop m a c st i segmentBuffers = (downloadM3u8_catch m a Cancelled, [])
       \<and> status (heap (downloadM3u8_catch m a Cancelled) ! a) = Error
       \<and> error (heap (downloadM3u8_catch m a Cancelled) ! a) = Some Cancelled
       \<and> disk (downloadM3u8_catch m a Cancelled) = disk m"
  using assms catch_sets_error [of a m Cancelled] by (simp add: segmentLoop_def)

text \<open>
  C2. A task on a playlist of one segment is deleted while the request for that
  segment is under way. The controller is aborted and the task leaves the store, but
  the loop has no check left before it ends: the interrupted run writes the output file
  and sets the task object to completed, and the file stays on disk.
\<close>

theorem delete_during_last_segment:
  "reachable example_env deleted_example
   \<and> (case snd fetching_example of
        [M3u8_segment a c st i segmentBuffers] \<Rightarrow>
          i = 0 \<and> tsUrls st = [''http://h/s0.ts''] \<and> segmentBuffers = []
      | _ \<Rightarrow> False)
   \<and> status (heap (fst fetching_example) ! 0) = Downloading
   \<and> activeDownloads (fst fetching_example) = [(''t1'', 0)]
   \<and> controllers (fst fetching_example) = [False]
   \<and> disk (fst fetching_example) = []
   \<and> controllers (fst (call_deleteTask ''t1'' fetching_example)) = [True]
   \<and> tasks (fst (call_deleteTask ''t1'' fetching_example)) = []
   \<and> tasks (fst deleted_example) = []
   \<and> status (heap (fst deleted_example) ! 0) = Completed
   \<and> error (heap (fst deleted_example) ! 0) = None
   \<and> disk (fst deleted_example) = [(''/d/src_vid_0.ts'', [1, 2])]
   \<and> snd deleted_example = []"
proof -
  have a: "reachable example_env deleted_example"
    unfolding deleted_example_def
    by (intro reachable_advance reachable_call_deleteTask reachable_fetching_example)
  have b: "(case snd fetching_example of
        [M3u8_segment a c st i segmentBuffers] \<Rightarrow>
          i = 0 \<and> tsUrls st = [''http://h/s0.ts''] \<and> segmentBuffers = []
      | _ \<Rightarrow> False)
   \<and> status (heap (fst fetching_example) ! 0) = Downloading
   \<and> activeDownloads (fst fetching_example) = [(''t1'', 0)]
   \<and> controllers (fst fetching_example) = [False]
   \<and> disk (fst fetching_example) = []
   \<and> controllers (fst (call_deleteTask ''t1'' fetching_example)) = [True]
   \<and> tasks (fst (call_deleteTask ''t1'' fetching_example)) = []"
    by code_simp
  have c: "tasks (fst deleted_example) = []
   \<and> status (heap (fst deleted_example) ! 0) = Completed
   \<and> error (heap (fst deleted_example) ! 0) = None
   \<and> disk (fst deleted_example) = [(''/d/src_vid_0.ts'', [1, 2])]
   \<and> snd deleted_example = []"
    by code_simp
  from a b c show ?thesis by simp
qed

text \<open>
  C7. The process restarts when two of the three segments of a task are downloaded.
  The constructor starts the task again without resetting its progress, as \<open>retryTask\<close>
  does: the new run is downloading with progress 67, and its first segment sets the
  progress to 33.
\<close>

theorem progress_drops_on_resume:
  "reachable example_env resumed_tick_example
   \<and> status (heap (fst two_of_three_example) ! 0) = Downloading
   \<and> progress (heap (fst two_of_three_example) ! 0) = 67
   \<and> (case snd resumed_example of
        [M3u8_segment a c st i segmentBuffers] \<Rightarrow> i = 0 \<and> length (tsUrls st) = 3
      | _ \<Rightarrow> False)
   \<and> status (heap (fst resumed_example) ! 0) = Downloading
   \<and> progress (heap (fst resumed_example) ! 0) = 67
   \<and> status (heap (fst resumed_tick_example) ! 0) = Downloading
   \<and> progress (heap (fst resumed_tick_example) ! 0) = 33"
proof -
  have a: "reachable example_env resumed_tick_example"
    unfolding resumed_tick_example_def resumed_example_def two_of_three_example_def
    by (intro reachable_advance reachable_restart_process reachable_advances
        reachable_call_addTask reachable.start)
  have b: "status (heap (fst two_of_three_example) ! 0) = Downloading
   \<and> progress (heap (fst two_of_three_example) ! 0) = 67"
    by code_simp
  have c: "(case snd resumed_example of
        [M3u8_segment a c st i segmentBuffers] \<Rightarrow> i = 0 \<and> length (tsUrls st) = 3
      | _ \<Rightarrow> False)
   \<and> status (heap (fst resumed_example) ! 0) = Downloading
   \<and> progress (heap (fst resumed_example) ! 0) = 67
   \<and> status (heap (fst resumed_tick_example) ! 0) = Downloading
   \<and> progress (heap (fst resumed_tick_example) ! 0) = 33"
    by code_simp
  from a b c show ?thesis by simp
qed

end
